theory Spec2Isabelle
  imports Main "HOL-Library.Word"
begin

unbundle bit_operations_syntax

section \<open>Data model of \<open>common/crypto/crypto.go\<close>\<close>

type_synonym byte = "8 word"
type_synonym bytes = "byte list"

text \<open>
  Go errors are values. \<open>ErrorString\<close> is what \<open>errors.New\<close> returns, \<open>KeySizeError\<close>
  is \<open>aes.KeySizeError\<close>; \<open>EOF\<close>, \<open>ErrShortWrite\<close> and \<open>ErrClosedPipe\<close> are the
  sentinels of package \<open>io\<close>, and \<open>ErrNetClosed\<close> is the error a closed network
  connection answers with.
\<close>

datatype error =
    ErrorString string
  | KeySizeError int
  | EOF
  | ErrShortWrite
  | ErrClosedPipe
  | ErrNetClosed

text \<open>
  The taxonomy of the specification: a configuration error is one of the
  \<open>errors.New\<close> values of \<open>initCipherStream\<close>, a cipher construction error is the
  key size error of \<open>aes.NewCipher\<close>.
\<close>

fun ConfigurationError :: "error \<Rightarrow> bool" where
  "ConfigurationError (ErrorString m) = True"
| "ConfigurationError e = False"

fun CipherConstructionError :: "error \<Rightarrow> bool" where
  "CipherConstructionError (KeySizeError k) = True"
| "CipherConstructionError e = False"

text \<open>
  A \<open>cipher.Block\<close> made by \<open>aes.NewCipher\<close> is determined by its key. The library
  function accepts keys of 16, 24 and 32 bytes and answers every other length with
  \<open>KeySizeError(len(key))\<close>.
\<close>

datatype block = Block (block_key: bytes)

definition aes_NewCipher :: "bytes \<Rightarrow> error + block" where
  "aes_NewCipher key =
     (if length key = 16 \<or> length key = 24 \<or> length key = 32
      then Inr (Block key)
      else Inl (KeySizeError (int (length key))))"

text \<open>
  A \<open>cipher.Stream\<close> is an object with one method, \<open>XORKeyStream(dst, src)\<close>, that
  keeps state between calls. The object is its current state together with its method
  on one byte; \<open>XORKeyStream\<close> runs the method over \<open>src\<close> and returns \<open>dst\<close> and the
  advanced object, so that consecutive calls behave as one call on the concatenation,
  which is the contract of the interface.
\<close>

datatype 'st stream = Stream (stream_state: 'st) (stream_step: "'st \<Rightarrow> byte \<Rightarrow> byte \<times> 'st")

fun run_step :: "('st \<Rightarrow> byte \<Rightarrow> byte \<times> 'st) \<Rightarrow> 'st \<Rightarrow> bytes \<Rightarrow> bytes \<times> 'st" where
  "run_step f s [] = ([], s)"
| "run_step f s (x # xs) =
     (case f s x of (y, s') \<Rightarrow> (case run_step f s' xs of (ys, s'') \<Rightarrow> (y # ys, s'')))"

fun XORKeyStream :: "'st stream \<Rightarrow> bytes \<Rightarrow> bytes \<times> 'st stream" where
  "XORKeyStream (Stream s f) src = (case run_step f s src of (dst, s') \<Rightarrow> (dst, Stream s' f))"

text \<open>
  The configuration. A Go slice is \<open>None\<close> when it is \<open>nil\<close> and \<open>Some bs\<close> otherwise
  (so \<open>Some []\<close> is an empty slice that is not \<open>nil\<close>); a function value and an interface
  value are \<open>None\<close> when \<open>nil\<close>. A constructor returns a \<open>cipher.Stream\<close>, an interface
  value, so its result can be \<open>nil\<close> as well.
\<close>

record 'st StreamEncryptDecrypter =
  EncryptKey :: "bytes option"
  DecryptKey :: "bytes option"
  StreamEncrypter :: "(block \<Rightarrow> bytes \<Rightarrow> 'st stream option) option"
  StreamDecrypter :: "(block \<Rightarrow> bytes \<Rightarrow> 'st stream option) option"
  EncryptStream :: "'st stream option"
  DecryptStream :: "'st stream option"
  EncryptIV :: "bytes option"
  DecryptIV :: "bytes option"

section \<open>The lazy cipher builder\<close>

text \<open>
  \<open>initCipherStream\<close> mutates the configuration in place and returns an error. The model
  returns the error (\<open>None\<close> is Go's \<open>nil\<close>), the configuration as the call leaves it,
  and the calls it made to its collaborators, in order: \<open>aes.NewCipher\<close> and the two
  constructors. Each call is tagged with the direction whose block of the function
  makes it. What a constructor returns is stored as it is, \<open>nil\<close> or not (lines 46
  and 62).
\<close>

datatype direction = Encrypt | Decrypt

datatype call =
    NewCipher direction bytes
  | Constructor direction block bytes

fun call_direction :: "call \<Rightarrow> direction" where
  "call_direction (NewCipher d k) = d"
| "call_direction (Constructor d b iv) = d"

text \<open>Lines 33 to 47: the encrypt direction.\<close>

definition initEncrypt ::
  "'st StreamEncryptDecrypter \<Rightarrow> error option \<times> 'st StreamEncryptDecrypter \<times> call list" where
  "initEncrypt ed =
     (case EncryptStream ed of
        Some s \<Rightarrow> (None, ed, [])
      | None \<Rightarrow>
         (case (StreamEncrypter ed, EncryptKey ed) of
            (Some ctor, Some key) \<Rightarrow>
              (case EncryptIV ed of
                 None \<Rightarrow> (Some (ErrorString ''encrypt IV must be set''), ed, [])
               | Some iv \<Rightarrow>
                  (case aes_NewCipher key of
                     Inl err \<Rightarrow> (Some err, ed, [NewCipher Encrypt key])
                   | Inr blk \<Rightarrow>
                       (None, ed\<lparr>EncryptStream := ctor blk iv\<rparr>,
                        [NewCipher Encrypt key, Constructor Encrypt blk iv])))
          | _ \<Rightarrow>
              (Some (ErrorString
                 ''at least one of EncryptStream OR EncryptKey and StreamEncrypter must be set''),
               ed, [])))"

text \<open>Lines 49 to 63: the decrypt direction.\<close>

definition initDecrypt ::
  "'st StreamEncryptDecrypter \<Rightarrow> error option \<times> 'st StreamEncryptDecrypter \<times> call list" where
  "initDecrypt ed =
     (case DecryptStream ed of
        Some s \<Rightarrow> (None, ed, [])
      | None \<Rightarrow>
         (case (StreamDecrypter ed, DecryptKey ed) of
            (Some ctor, Some key) \<Rightarrow>
              (case DecryptIV ed of
                 None \<Rightarrow> (Some (ErrorString ''decrypt IV must be set''), ed, [])
               | Some iv \<Rightarrow>
                  (case aes_NewCipher key of
                     Inl err \<Rightarrow> (Some err, ed, [NewCipher Decrypt key])
                   | Inr blk \<Rightarrow>
                       (None, ed\<lparr>DecryptStream := ctor blk iv\<rparr>,
                        [NewCipher Decrypt key, Constructor Decrypt blk iv])))
          | _ \<Rightarrow>
              (Some (ErrorString
                 ''at least one of DecryptStream OR DecryptKey and StreamDecrypter must be set''),
               ed, [])))"

text \<open>The whole function: the encrypt block, and the decrypt block unless the first returned.\<close>

definition initCipherStream ::
  "'st StreamEncryptDecrypter \<Rightarrow> error option \<times> 'st StreamEncryptDecrypter \<times> call list" where
  "initCipherStream ed =
     (case initEncrypt ed of
        (Some err, ed1, cs1) \<Rightarrow> (Some err, ed1, cs1)
      | (None, ed1, cs1) \<Rightarrow>
          (case initDecrypt ed1 of (r, ed2, cs2) \<Rightarrow> (r, ed2, cs1 @ cs2)))"

section \<open>Connections, pipes and background tasks\<close>

text \<open>
  The objects the transforms work on live in a store, addressed by reference: the real
  connections (\<open>net.Conn\<close>), the pipes made by \<open>io.Pipe\<close>, and the goroutines started
  by \<open>go\<close>. Every operation on a connection or a pipe is also appended to a trace, so
  that "no operation was performed" can be said.

  A connection holds what its next reads will return (\<open>conn_rx\<close>: the bytes and the
  error of each read), the bytes written to it so far (\<open>conn_tx\<close>), and whether it has
  been closed. A read that finds no result ready blocks: the model returns \<open>None\<close>.
  A read or write of length zero on an open connection returns \<open>(0, nil)\<close>; every
  operation on a closed connection returns the closed-connection error.

  A pipe holds the chunks handed to \<open>Write\<close> that the reader has not yet consumed, and
  one closed flag for each end. \<open>Read\<close> takes from the oldest chunk only, at most the
  length of the caller's buffer. The model does not suspend the writer until the reader
  has taken its chunk: the chunk stays pending.
\<close>

record conn =
  conn_closed :: bool
  conn_rx :: "(bytes \<times> error option) list"
  conn_tx :: bytes

record pipe =
  pipe_pending :: "bytes list"
  pipe_rclosed :: bool
  pipe_wclosed :: bool

datatype event =
    ConnRead nat nat
  | ConnWrite nat bytes
  | ConnClose nat
  | PipeNew nat
  | PipeRead nat nat
  | PipeWrite nat bytes
  | PipeCloseRead nat
  | PipeCloseWrite nat
  | Go nat

text \<open>The struct \<open>readWriter\<close> (lines 11 to 14) and \<open>CipherConn\<close> (lines 144 to 147):
  the reader is the read end of one pipe, the writer the write end of another, and
  \<open>Conn\<close> is the real connection.\<close>

record readWriter =
  Reader :: nat
  Writer :: nat

record CipherConn =
  ReadWriter :: readWriter
  Conn :: nat

text \<open>
  A goroutine of a transform copies from a pipe to the real connection or from the real
  connection to a pipe, through a \<open>cipher.StreamReader\<close> around its source or a
  \<open>cipher.StreamWriter\<close> around its destination, and closes the guarded connection
  when \<open>io.Copy\<close> returns.
\<close>

datatype route = PipeToConn nat nat | ConnToPipe nat nat

datatype wrapper = ByStreamReader | ByStreamWriter

datatype status = Running | Finished | Panicked

record 'st task =
  task_stream :: "'st stream option"
  task_route :: route
  task_wrapper :: wrapper
  task_owner :: CipherConn
  task_status :: status

record 'st world =
  conns :: "nat \<Rightarrow> conn"
  pipes :: "nat \<Rightarrow> pipe"
  npipes :: nat
  tasks :: "'st task list"
  trace :: "event list"

definition log :: "event \<Rightarrow> 'st world \<Rightarrow> 'st world" where
  "log e w = w\<lparr>trace := trace w @ [e]\<rparr>"

definition set_conn :: "nat \<Rightarrow> conn \<Rightarrow> 'st world \<Rightarrow> 'st world" where
  "set_conn c k w = w\<lparr>conns := (conns w)(c := k)\<rparr>"

definition set_pipe :: "nat \<Rightarrow> pipe \<Rightarrow> 'st world \<Rightarrow> 'st world" where
  "set_pipe p q w = w\<lparr>pipes := (pipes w)(p := q)\<rparr>"

subsection \<open>The real connection\<close>

definition conn_Read ::
  "nat \<Rightarrow> nat \<Rightarrow> 'st world \<Rightarrow> (bytes \<times> error option) option \<times> 'st world" where
  "conn_Read c n w =
     (let k = conns w c; w1 = log (ConnRead c n) w in
      if conn_closed k then (Some ([], Some ErrNetClosed), w1)
      else if n = 0 then (Some ([], None), w1)
      else (case conn_rx k of
              [] \<Rightarrow> (None, w1)
            | (b, e) # rest \<Rightarrow>
                if length b \<le> n
                then (Some (b, e), set_conn c (k\<lparr>conn_rx := rest\<rparr>) w1)
                else (Some (take n b, None),
                      set_conn c (k\<lparr>conn_rx := (drop n b, e) # rest\<rparr>) w1)))"

definition conn_Write ::
  "nat \<Rightarrow> bytes \<Rightarrow> 'st world \<Rightarrow> (nat \<times> error option) \<times> 'st world" where
  "conn_Write c b w =
     (let k = conns w c; w1 = log (ConnWrite c b) w in
      if conn_closed k then ((0, Some ErrNetClosed), w1)
      else ((length b, None), set_conn c (k\<lparr>conn_tx := conn_tx k @ b\<rparr>) w1))"

text \<open>
  Modelled from the spec: \<open>Close\<close> of the real connection is the method of a
  \<open>net.Conn\<close>, which is not code of this repository. It is taken not to panic, to
  return \<open>nil\<close> when it closes the connection, and to return the closed-connection
  error, changing nothing, when the connection is closed already.
\<close>

definition conn_Close :: "nat \<Rightarrow> 'st world \<Rightarrow> error option \<times> 'st world" where
  "conn_Close c w =
     (let k = conns w c; w1 = log (ConnClose c) w in
      if conn_closed k then (Some ErrNetClosed, w1)
      else (None, set_conn c (k\<lparr>conn_closed := True\<rparr>) w1))"

subsection \<open>The pipe of package \<open>io\<close>\<close>

definition io_Pipe :: "'st world \<Rightarrow> nat \<times> 'st world" where
  "io_Pipe w =
     (npipes w,
      log (PipeNew (npipes w))
        (set_pipe (npipes w) \<lparr>pipe_pending = [], pipe_rclosed = False, pipe_wclosed = False\<rparr>
           (w\<lparr>npipes := Suc (npipes w)\<rparr>)))"

definition pipe_Read ::
  "nat \<Rightarrow> nat \<Rightarrow> 'st world \<Rightarrow> (bytes \<times> error option) option \<times> 'st world" where
  "pipe_Read p n w =
     (let q = pipes w p; w1 = log (PipeRead p n) w in
      if pipe_rclosed q then (Some ([], Some ErrClosedPipe), w1)
      else (case pipe_pending q of
              [] \<Rightarrow> if pipe_wclosed q then (Some ([], Some EOF), w1) else (None, w1)
            | b # rest \<Rightarrow>
                if length b \<le> n
                then (Some (b, None), set_pipe p (q\<lparr>pipe_pending := rest\<rparr>) w1)
                else (Some (take n b, None),
                      set_pipe p (q\<lparr>pipe_pending := drop n b # rest\<rparr>) w1)))"

definition pipe_Write ::
  "nat \<Rightarrow> bytes \<Rightarrow> 'st world \<Rightarrow> (nat \<times> error option) \<times> 'st world" where
  "pipe_Write p b w =
     (let q = pipes w p; w1 = log (PipeWrite p b) w in
      if pipe_rclosed q \<or> pipe_wclosed q then ((0, Some ErrClosedPipe), w1)
      else ((length b, None), set_pipe p (q\<lparr>pipe_pending := pipe_pending q @ [b]\<rparr>) w1))"

definition pipe_CloseRead :: "nat \<Rightarrow> 'st world \<Rightarrow> 'st world" where
  "pipe_CloseRead p w =
     set_pipe p ((pipes w p)\<lparr>pipe_rclosed := True\<rparr>) (log (PipeCloseRead p) w)"

definition pipe_CloseWrite :: "nat \<Rightarrow> 'st world \<Rightarrow> 'st world" where
  "pipe_CloseWrite p w =
     set_pipe p ((pipes w p)\<lparr>pipe_wclosed := True\<rparr>) (log (PipeCloseWrite p) w)"

subsection \<open>The guarded connection\<close>

text \<open>Lines 149 to 154.\<close>

definition CipherConn_Read ::
  "CipherConn \<Rightarrow> nat \<Rightarrow> 'st world \<Rightarrow> (bytes \<times> error option) option \<times> 'st world" where
  "CipherConn_Read c n w =
     (case conn_Read (Conn c) 0 w of
        (None, w1) \<Rightarrow> (None, w1)
      | (Some (b, Some err), w1) \<Rightarrow> (Some ([], Some err), w1)
      | (Some (b, None), w1) \<Rightarrow> pipe_Read (Reader (ReadWriter c)) n w1)"

text \<open>Lines 156 to 161.\<close>

definition CipherConn_Write ::
  "CipherConn \<Rightarrow> bytes \<Rightarrow> 'st world \<Rightarrow> (nat \<times> error option) \<times> 'st world" where
  "CipherConn_Write c b w =
     (case conn_Write (Conn c) [] w of
        ((n, Some err), w1) \<Rightarrow> ((0, Some err), w1)
      | ((n, None), w1) \<Rightarrow> pipe_Write (Writer (ReadWriter c)) b w1)"

text \<open>\<open>CipherConn\<close> declares no \<open>Close\<close>: the method is the one of the embedded
  \<open>net.Conn\<close>, the only embedded field that has it.\<close>

definition CipherConn_Close :: "CipherConn \<Rightarrow> 'st world \<Rightarrow> error option \<times> 'st world" where
  "CipherConn_Close c w = conn_Close (Conn c) w"

section \<open>The two transforms\<close>

definition go :: "'st task \<Rightarrow> 'st world \<Rightarrow> 'st world" where
  "go t w = log (Go (length (tasks w))) (w\<lparr>tasks := tasks w @ [t]\<rparr>)"

text \<open>
  Lines 72 to 104. The pipe \<open>p0\<close> is \<open>(cipherRdIn, cipherWtOut)\<close> and \<open>p1\<close> is
  \<open>(cipherRdOut, cipherWtIn)\<close>. The first goroutine decrypts what is written to the
  returned connection into \<open>plaintext\<close>; the second encrypts what \<open>plaintext\<close> delivers
  towards the returned connection. A goroutine takes its stream from the configuration
  when it starts, which is the stream the builder has left there.
\<close>

definition Ciphertext ::
  "'st StreamEncryptDecrypter \<Rightarrow> nat \<Rightarrow> 'st world \<Rightarrow>
   (error + CipherConn) \<times> 'st StreamEncryptDecrypter \<times> 'st world" where
  "Ciphertext ed plaintext w =
     (case initCipherStream ed of
        (Some err, ed', cs) \<Rightarrow> (Inl err, ed', w)
      | (None, ed', cs) \<Rightarrow>
          (case io_Pipe w of (p0, w1) \<Rightarrow>
           (case io_Pipe w1 of (p1, w2) \<Rightarrow>
             (let ciphertext = \<lparr>ReadWriter = \<lparr>Reader = p1, Writer = p0\<rparr>, Conn = plaintext\<rparr>;
                  w3 = go \<lparr>task_stream = DecryptStream ed',
                           task_route = PipeToConn p0 plaintext,
                           task_wrapper = ByStreamReader,
                           task_owner = ciphertext,
                           task_status = Running\<rparr> w2;
                  w4 = go \<lparr>task_stream = EncryptStream ed',
                           task_route = ConnToPipe plaintext p1,
                           task_wrapper = ByStreamWriter,
                           task_owner = ciphertext,
                           task_status = Running\<rparr> w3
              in (Inr ciphertext, ed', w4)))))"

text \<open>
  Lines 110 to 141. The pipe \<open>p0\<close> is \<open>(plainRdIn, plainWtOut)\<close> and \<open>p1\<close> is
  \<open>(plainRdOut, plainWtIn)\<close>. The first goroutine encrypts what is written to the returned
  connection into \<open>ciphertext\<close>; the second decrypts what \<open>ciphertext\<close> delivers towards
  the returned connection.
\<close>

definition Plaintext ::
  "'st StreamEncryptDecrypter \<Rightarrow> nat \<Rightarrow> 'st world \<Rightarrow>
   (error + CipherConn) \<times> 'st StreamEncryptDecrypter \<times> 'st world" where
  "Plaintext ed ciphertext w =
     (case initCipherStream ed of
        (Some err, ed', cs) \<Rightarrow> (Inl err, ed', w)
      | (None, ed', cs) \<Rightarrow>
          (case io_Pipe w of (p0, w1) \<Rightarrow>
           (case io_Pipe w1 of (p1, w2) \<Rightarrow>
             (let plaintext = \<lparr>ReadWriter = \<lparr>Reader = p1, Writer = p0\<rparr>, Conn = ciphertext\<rparr>;
                  w3 = go \<lparr>task_stream = EncryptStream ed',
                           task_route = PipeToConn p0 ciphertext,
                           task_wrapper = ByStreamWriter,
                           task_owner = plaintext,
                           task_status = Running\<rparr> w2;
                  w4 = go \<lparr>task_stream = DecryptStream ed',
                           task_route = ConnToPipe ciphertext p1,
                           task_wrapper = ByStreamReader,
                           task_owner = plaintext,
                           task_status = Running\<rparr> w3
              in (Inr plaintext, ed', w4)))))"

section \<open>The goroutines: \<open>io.Copy\<close> through a stream cipher\<close>

text \<open>The source and the destination of a goroutine's copy, by its route.\<close>

definition source_Read ::
  "route \<Rightarrow> nat \<Rightarrow> 'st world \<Rightarrow> (bytes \<times> error option) option \<times> 'st world" where
  "source_Read rt n w =
     (case rt of PipeToConn p c \<Rightarrow> pipe_Read p n w | ConnToPipe c p \<Rightarrow> conn_Read c n w)"

definition sink_Write ::
  "route \<Rightarrow> bytes \<Rightarrow> 'st world \<Rightarrow> (nat \<times> error option) \<times> 'st world" where
  "sink_Write rt b w =
     (case rt of PipeToConn p c \<Rightarrow> conn_Write c b w | ConnToPipe c p \<Rightarrow> pipe_Write p b w)"

text \<open>
  \<open>cipher.StreamReader.Read\<close> reads from the wrapped reader and runs the bytes read
  through the stream in place; \<open>cipher.StreamWriter.Write\<close> runs \<open>src\<close> through the
  stream into a fresh buffer, writes that to the wrapped writer and reports a short
  write that came without an error.
\<close>

definition StreamReader_Read ::
  "'st stream \<Rightarrow> (nat \<Rightarrow> 'st world \<Rightarrow> (bytes \<times> error option) option \<times> 'st world) \<Rightarrow>
   nat \<Rightarrow> 'st world \<Rightarrow> (bytes \<times> error option) option \<times> 'st stream \<times> 'st world" where
  "StreamReader_Read S R n w =
     (case R n w of
        (None, w1) \<Rightarrow> (None, S, w1)
      | (Some (b, err), w1) \<Rightarrow>
          (case XORKeyStream S b of (b', S') \<Rightarrow> (Some (b', err), S', w1)))"

definition StreamWriter_Write ::
  "'st stream \<Rightarrow> (bytes \<Rightarrow> 'st world \<Rightarrow> (nat \<times> error option) \<times> 'st world) \<Rightarrow>
   bytes \<Rightarrow> 'st world \<Rightarrow> (nat \<times> error option) \<times> 'st stream \<times> 'st world" where
  "StreamWriter_Write S W src w =
     (case XORKeyStream S src of (c, S') \<Rightarrow>
        (case W c w of ((n, err), w1) \<Rightarrow>
           ((n, if n \<noteq> length src \<and> err = None then Some ErrShortWrite else err), S', w1)))"

text \<open>A goroutine reads through the stream reader or writes through the stream writer.\<close>

definition task_Read ::
  "wrapper \<Rightarrow> route \<Rightarrow> 'st stream \<Rightarrow> nat \<Rightarrow> 'st world \<Rightarrow>
   (bytes \<times> error option) option \<times> 'st stream \<times> 'st world" where
  "task_Read wr rt S n w =
     (case wr of
        ByStreamReader \<Rightarrow> StreamReader_Read S (source_Read rt) n w
      | ByStreamWriter \<Rightarrow> (case source_Read rt n w of (r, w1) \<Rightarrow> (r, S, w1)))"

definition task_Write ::
  "wrapper \<Rightarrow> route \<Rightarrow> 'st stream \<Rightarrow> bytes \<Rightarrow> 'st world \<Rightarrow>
   (nat \<times> error option) \<times> 'st stream \<times> 'st world" where
  "task_Write wr rt S b w =
     (case wr of
        ByStreamReader \<Rightarrow> (case sink_Write rt b w of (r, w1) \<Rightarrow> (r, S, w1))
      | ByStreamWriter \<Rightarrow> StreamWriter_Write S (sink_Write rt) b w)"

text \<open>
  One turn of the loop of \<open>io.Copy\<close>, with its buffer of 32 * 1024 bytes: read; if
  bytes were read, write them, and leave the loop on a write error or a short write;
  leave the loop on a read error (end of input included). A read that blocks leaves
  the goroutine suspended in the loop.
\<close>

datatype 'st progress =
    Blocked "'st stream" "'st world"
  | Returned "'st stream" "'st world"
  | Again "'st stream" "'st world"

definition copy_step :: "wrapper \<Rightarrow> route \<Rightarrow> 'st stream \<Rightarrow> 'st world \<Rightarrow> 'st progress" where
  "copy_step wr rt S w =
     (case task_Read wr rt S 32768 w of
        (None, S1, w1) \<Rightarrow> Blocked S1 w1
      | (Some (b, er), S1, w1) \<Rightarrow>
          if b \<noteq> [] then
            (case task_Write wr rt S1 b w1 of
               ((nw, ew), S2, w2) \<Rightarrow>
                 if ew \<noteq> None then Returned S2 w2
                 else if length b \<noteq> nw then Returned S2 w2
                 else if er \<noteq> None then Returned S2 w2
                 else Again S2 w2)
          else if er \<noteq> None then Returned S1 w1
          else Again S1 w1)"

text \<open>The loop ends: every turn that goes round again has consumed from the source.\<close>

definition chunks_size :: "bytes list \<Rightarrow> nat" where
  "chunks_size cs = sum_list (map (\<lambda>b. Suc (length b)) cs)"

definition source_size :: "route \<Rightarrow> 'st world \<Rightarrow> nat" where
  "source_size rt w =
     (case rt of
        PipeToConn p c \<Rightarrow> chunks_size (pipe_pending (pipes w p))
      | ConnToPipe c p \<Rightarrow> chunks_size (map fst (conn_rx (conns w c))))"

lemma copy_step_Again_size:
  "copy_step wr rt S w = Again S' w' \<Longrightarrow> source_size rt w' < source_size rt w"
  by (cases rt; cases wr)
     (auto simp: copy_step_def task_Read_def task_Write_def StreamReader_Read_def
        StreamWriter_Write_def source_Read_def sink_Write_def pipe_Read_def conn_Read_def
        pipe_Write_def conn_Write_def source_size_def chunks_size_def Let_def log_def
        set_pipe_def set_conn_def
        split: prod.splits option.splits if_splits list.splits)

text \<open>\<open>io.Copy\<close>: the result says whether the call returned (\<open>True\<close>) or is suspended
  in a read (\<open>False\<close>).\<close>

function copy_loop ::
  "wrapper \<Rightarrow> route \<Rightarrow> 'st stream \<Rightarrow> 'st world \<Rightarrow> bool \<times> 'st stream \<times> 'st world" where
  "copy_loop wr rt S w =
     (case copy_step wr rt S w of
        Blocked S1 w1 \<Rightarrow> (False, S1, w1)
      | Returned S1 w1 \<Rightarrow> (True, S1, w1)
      | Again S1 w1 \<Rightarrow> copy_loop wr rt S1 w1)"
  by pat_completeness auto
termination
  by (relation "measure (\<lambda>(wr, rt, S, w). source_size rt w)")
     (auto dest: copy_step_Again_size)

declare copy_loop.simps [simp del]

text \<open>
  The same loop for a goroutine whose stream is \<open>nil\<close>. Such a goroutine panics at
  its first call of \<open>XORKeyStream\<close>: \<open>cipher.StreamReader.Read\<close> makes that call when
  the read of the wrapped reader has returned, whatever it has returned;
  \<open>cipher.StreamWriter.Write\<close> makes it before it writes, so \<open>io.Copy\<close> gets there
  with the first bytes it has read, and returns without a panic when its source ends
  before any byte. One turn gives the new status of the goroutine (\<open>Running\<close>:
  suspended in a read, \<open>Finished\<close>: \<open>io.Copy\<close> has returned), or \<open>None\<close> to go round
  again.
\<close>

definition nil_copy_step :: "wrapper \<Rightarrow> route \<Rightarrow> 'st world \<Rightarrow> status option \<times> 'st world" where
  "nil_copy_step wr rt w =
     (case source_Read rt 32768 w of
        (None, w1) \<Rightarrow> (Some Running, w1)
      | (Some (b, er), w1) \<Rightarrow>
          (case wr of
             ByStreamReader \<Rightarrow> (Some Panicked, w1)
           | ByStreamWriter \<Rightarrow>
               if b \<noteq> [] then (Some Panicked, w1)
               else if er \<noteq> None then (Some Finished, w1)
               else (None, w1)))"

lemma nil_copy_step_Again_size:
  "nil_copy_step wr rt w = (None, w') \<Longrightarrow> source_size rt w' < source_size rt w"
  by (cases rt; cases wr)
     (auto simp: nil_copy_step_def source_Read_def pipe_Read_def conn_Read_def
        source_size_def chunks_size_def Let_def log_def set_pipe_def set_conn_def
        split: prod.splits option.splits if_splits list.splits)

function nil_copy_loop :: "wrapper \<Rightarrow> route \<Rightarrow> 'st world \<Rightarrow> status \<times> 'st world" where
  "nil_copy_loop wr rt w =
     (case nil_copy_step wr rt w of
        (Some st, w1) \<Rightarrow> (st, w1)
      | (None, w1) \<Rightarrow> nil_copy_loop wr rt w1)"
  by pat_completeness auto
termination
  by (relation "measure (\<lambda>(wr, rt, w). source_size rt w)")
     (auto dest: nil_copy_step_Again_size [OF sym])

declare nil_copy_loop.simps [simp del]

text \<open>
  Running goroutine \<open>i\<close> until it is suspended or done. When \<open>io.Copy\<close> returns, the
  goroutine closes the guarded connection (lines 93, 100, 130 and 137), drops what
  \<open>Close\<close> returns, and ends. A panic is recorded in the status of the goroutine.
\<close>

definition run_task :: "nat \<Rightarrow> 'st world \<Rightarrow> 'st world" where
  "run_task i w =
     (if i < length (tasks w) then
        (let t = tasks w ! i in
         if task_status t \<noteq> Running then w
         else
           (case task_stream t of
              None \<Rightarrow>
                (case nil_copy_loop (task_wrapper t) (task_route t) w of
                   (st, w1) \<Rightarrow>
                     if st = Finished then
                       (case CipherConn_Close (task_owner t) w1 of
                          (err, w2) \<Rightarrow>
                            w2\<lparr>tasks := (tasks w2)[i := t\<lparr>task_status := Finished\<rparr>]\<rparr>)
                     else w1\<lparr>tasks := (tasks w1)[i := t\<lparr>task_status := st\<rparr>]\<rparr>)
            | Some S \<Rightarrow>
                (case copy_loop (task_wrapper t) (task_route t) S w of
                   (False, S1, w1) \<Rightarrow>
                     w1\<lparr>tasks := (tasks w1)[i := t\<lparr>task_stream := Some S1\<rparr>]\<rparr>
                 | (True, S1, w1) \<Rightarrow>
                     (case CipherConn_Close (task_owner t) w1 of
                        (err, w2) \<Rightarrow>
                          w2\<lparr>tasks := (tasks w2)[i := t\<lparr>task_stream := Some S1,
                                                            task_status := Finished\<rparr>]\<rparr>))))
      else w)"

section \<open>Stream modes\<close>

text \<open>
  The constructors a caller puts into the configuration come from package
  \<open>crypto/cipher\<close> (CFB, CTR, OFB). They share one shape: the state gives the next
  keystream byte, a plaintext byte is encrypted by exclusive-or with it, and the state
  advances, with the ciphertext byte fed back (CFB) or regardless of it (CTR, OFB). The
  encrypter and the decrypter of a mode differ only in which side of the exclusive-or
  is the ciphertext.
\<close>

record 'st mode =
  mode_init :: "block \<Rightarrow> bytes \<Rightarrow> 'st"
  mode_ks :: "'st \<Rightarrow> byte"
  mode_fb :: "'st \<Rightarrow> byte \<Rightarrow> 'st"

definition encrypt_step :: "'st mode \<Rightarrow> 'st \<Rightarrow> byte \<Rightarrow> byte \<times> 'st" where
  "encrypt_step m s p = (let c = p XOR mode_ks m s in (c, mode_fb m s c))"

definition decrypt_step :: "'st mode \<Rightarrow> 'st \<Rightarrow> byte \<Rightarrow> byte \<times> 'st" where
  "decrypt_step m s c = (c XOR mode_ks m s, mode_fb m s c)"

definition mode_Encrypter :: "'st mode \<Rightarrow> block \<Rightarrow> bytes \<Rightarrow> 'st stream" where
  "mode_Encrypter m blk iv = Stream (mode_init m blk iv) (encrypt_step m)"

definition mode_Decrypter :: "'st mode \<Rightarrow> block \<Rightarrow> bytes \<Rightarrow> 'st stream" where
  "mode_Decrypter m blk iv = Stream (mode_init m blk iv) (decrypt_step m)"

text \<open>
  The constructors of a mode as a caller puts them into the configuration: they return
  the stream, never \<open>nil\<close>. The constructors of the library panic when the IV has not
  the length of a block; that is left out here, where a constructor returns for every
  IV.
\<close>

definition NewEncrypter :: "'st mode \<Rightarrow> block \<Rightarrow> bytes \<Rightarrow> 'st stream option" where
  "NewEncrypter m blk iv = Some (mode_Encrypter m blk iv)"

definition NewDecrypter :: "'st mode \<Rightarrow> block \<Rightarrow> bytes \<Rightarrow> 'st stream option" where
  "NewDecrypter m blk iv = Some (mode_Decrypter m blk iv)"

text \<open>
  Counter mode over a block function \<open>E key block\<close> (AES is taken as a parameter): the
  keystream is \<open>E key iv\<close>, \<open>E key (iv + 1)\<close>, and so on, the counter being incremented
  as a big-endian number. The state is the block cipher, the counter and the position
  in the current keystream block.
\<close>

fun inc_le :: "bytes \<Rightarrow> bytes" where
  "inc_le [] = []"
| "inc_le (x # xs) = (if x + 1 = 0 then 0 # inc_le xs else (x + 1) # xs)"

definition inc_counter :: "bytes \<Rightarrow> bytes" where
  "inc_counter ctr = rev (inc_le (rev ctr))"

type_synonym ctr_state = "block \<times> bytes \<times> nat"

definition CTR :: "(bytes \<Rightarrow> bytes \<Rightarrow> bytes) \<Rightarrow> ctr_state mode" where
  "CTR E =
     \<lparr>mode_init = (\<lambda>blk iv. (blk, iv, 0)),
      mode_ks = (\<lambda>(blk, ctr, i). E (block_key blk) ctr ! i),
      mode_fb = (\<lambda>(blk, ctr, i) c.
                   if Suc i < 16 then (blk, ctr, Suc i) else (blk, inc_counter ctr, 0))\<rparr>"

text \<open>The exclusive-or of two byte sequences, byte by byte.\<close>

definition xor_bytes :: "bytes \<Rightarrow> bytes \<Rightarrow> bytes" where
  "xor_bytes xs ys = map (\<lambda>(x, y). x XOR y) (zip xs ys)"

text \<open>
  The keystream of counter mode, written without any state: \<open>ctr_blocks\<close> is the
  encryption of \<open>n\<close> successive counter values, and \<open>CTR_keystream\<close> its first
  \<open>n\<close> bytes.
\<close>

fun ctr_blocks :: "(bytes \<Rightarrow> bytes \<Rightarrow> bytes) \<Rightarrow> bytes \<Rightarrow> bytes \<Rightarrow> nat \<Rightarrow> bytes" where
  "ctr_blocks E key ctr 0 = []"
| "ctr_blocks E key ctr (Suc n) = E key ctr @ ctr_blocks E key (inc_counter ctr) n"

definition CTR_keystream :: "(bytes \<Rightarrow> bytes \<Rightarrow> bytes) \<Rightarrow> bytes \<Rightarrow> bytes \<Rightarrow> nat \<Rightarrow> bytes" where
  "CTR_keystream E key iv n = take n (ctr_blocks E key iv (Suc (n div 16)))"

section \<open>Observing the store\<close>

text \<open>
  What a goroutine that copies from a connection takes from it: \<open>io.Copy\<close> goes on
  reading until a read returns an error (end of input included), and the bytes that
  come with the error are still copied. \<open>consumed\<close> is every byte up to there, and
  \<open>ends\<close> says whether such a read is among those the connection holds.
\<close>

fun consumed :: "(bytes \<times> error option) list \<Rightarrow> bytes" where
  "consumed [] = []"
| "consumed ((b, e) # rest) = b @ (if e = None then consumed rest else [])"

fun ends :: "(bytes \<times> error option) list \<Rightarrow> bool" where
  "ends [] = False"
| "ends ((b, e) # rest) = (if e = None then ends rest else True)"

fun progress_world :: "'st progress \<Rightarrow> 'st world" where
  "progress_world (Blocked S w) = w"
| "progress_world (Returned S w) = w"
| "progress_world (Again S w) = w"

text \<open>
  The operations of the core, as a caller and the scheduler can invoke them in any order:
  the two transforms, \<open>Read\<close>, \<open>Write\<close> and \<open>Close\<close> on a guarded connection, and
  letting a goroutine run.
\<close>

datatype 'st operation =
    DoCiphertext "'st StreamEncryptDecrypter" nat
  | DoPlaintext "'st StreamEncryptDecrypter" nat
  | DoRead CipherConn nat
  | DoWrite CipherConn bytes
  | DoClose CipherConn
  | DoRun nat

fun perform :: "'st operation \<Rightarrow> 'st world \<Rightarrow> 'st world" where
  "perform (DoCiphertext ed c) w = snd (snd (Ciphertext ed c w))"
| "perform (DoPlaintext ed c) w = snd (snd (Plaintext ed c w))"
| "perform (DoRead c n) w = snd (CipherConn_Read c n w)"
| "perform (DoWrite c b) w = snd (CipherConn_Write c b w)"
| "perform (DoClose c) w = snd (CipherConn_Close c w)"
| "perform (DoRun i) w = run_task i w"

fun perform_all :: "'st operation list \<Rightarrow> 'st world \<Rightarrow> 'st world" where
  "perform_all [] w = w"
| "perform_all (x # xs) w = perform_all xs (perform x w)"

text \<open>Writing a list of chunks to a guarded connection, one \<open>Write\<close> for each.\<close>

fun write_all :: "CipherConn \<Rightarrow> bytes list \<Rightarrow> 'st world \<Rightarrow> 'st world" where
  "write_all g [] w = w"
| "write_all g (b # bs) w = write_all g bs (snd (CipherConn_Write g b w))"

text \<open>
  \<open>quiet w w'\<close>: from \<open>w\<close> to \<open>w'\<close> no pipe end that was open has become closed, and
  the trace has only grown, by events that close no pipe end.
\<close>

fun is_pipe_close :: "event \<Rightarrow> bool" where
  "is_pipe_close (PipeCloseRead p) = True"
| "is_pipe_close (PipeCloseWrite p) = True"
| "is_pipe_close e = False"

definition quiet :: "'st world \<Rightarrow> 'st world \<Rightarrow> bool" where
  "quiet w w' \<longleftrightarrow>
     (\<forall>p. (pipe_rclosed (pipes w' p) \<longrightarrow> pipe_rclosed (pipes w p)) \<and>
          (pipe_wclosed (pipes w' p) \<longrightarrow> pipe_wclosed (pipes w p))) \<and>
     (\<exists>es. trace w' = trace w @ es \<and> (\<forall>e \<in> set es. \<not> is_pipe_close e))"

section \<open>Sample values\<close>

text \<open>
  The key \<open>00..0F\<close> and the all-zero IV of the specification's concrete vector, the
  configuration built from them for counter mode, a stand-in block function for
  evaluating examples, a constructor that returns \<open>nil\<close> and the configuration with it
  as the encrypt constructor, a store in which every connection is open and idle, a
  guarded connection whose two pipe ends belong to one pipe, the store after connection
  0 was closed, the store in which connection 0 holds given reads, the store after
  the "to ciphertext" transform on a connection that is at its end of input, the guarded
  connection that transform returns, and the store after three bytes were written to it
  and after it was closed then.
\<close>

definition vector_key :: bytes where
  "vector_key = [0, 1, 2, 3, 4, 5, 6, 7, 8, 9, 10, 11, 12, 13, 14, 15]"

definition vector_iv :: bytes where
  "vector_iv = [0, 0, 0, 0, 0, 0, 0, 0, 0, 0, 0, 0, 0, 0, 0, 0]"

definition vector_config ::
  "(bytes \<Rightarrow> bytes \<Rightarrow> bytes) \<Rightarrow> ctr_state StreamEncryptDecrypter" where
  "vector_config E =
     \<lparr>EncryptKey = Some vector_key, DecryptKey = Some vector_key,
      StreamEncrypter = Some (NewEncrypter (CTR E)),
      StreamDecrypter = Some (NewDecrypter (CTR E)),
      EncryptStream = None, DecryptStream = None,
      EncryptIV = Some vector_iv, DecryptIV = Some vector_iv\<rparr>"

definition xor_block :: "bytes \<Rightarrow> bytes \<Rightarrow> bytes" where
  "xor_block key b = map (\<lambda>(x, y). x XOR y) (zip key b)"

definition idle_world :: "ctr_state world" where
  "idle_world =
     \<lparr>conns = (\<lambda>c. \<lparr>conn_closed = False, conn_rx = [], conn_tx = []\<rparr>),
      pipes = (\<lambda>p. \<lparr>pipe_pending = [], pipe_rclosed = False, pipe_wclosed = False\<rparr>),
      npipes = 0, tasks = [], trace = []\<rparr>"

definition ready_config :: "ctr_state StreamEncryptDecrypter" where
  "ready_config =
     (vector_config xor_block)
       \<lparr>EncryptStream := Some (mode_Encrypter (CTR xor_block) (Block vector_key) vector_iv),
        DecryptStream := Some (mode_Decrypter (CTR xor_block) (Block vector_key) vector_iv)\<rparr>"

definition nil_constructor :: "block \<Rightarrow> bytes \<Rightarrow> ctr_state stream option" where
  "nil_constructor blk iv = None"

definition nil_config :: "ctr_state StreamEncryptDecrypter" where
  "nil_config = (vector_config xor_block)\<lparr>StreamEncrypter := Some nil_constructor\<rparr>"

definition loop_conn :: CipherConn where
  "loop_conn = \<lparr>ReadWriter = \<lparr>Reader = 0, Writer = 0\<rparr>, Conn = 0\<rparr>"

definition closed_world :: "ctr_state world" where
  "closed_world = snd (conn_Close 0 idle_world)"

definition feed_world :: "(bytes \<times> error option) list \<Rightarrow> ctr_state world" where
  "feed_world rx =
     idle_world\<lparr>conns := (conns idle_world)
                   (0 := \<lparr>conn_closed = False, conn_rx = rx, conn_tx = []\<rparr>)\<rparr>"

definition eof_session :: "ctr_state world" where
  "eof_session =
     snd (snd (Ciphertext (vector_config xor_block) 0 (feed_world [([], Some EOF)])))"

definition session_conn :: CipherConn where
  "session_conn = \<lparr>ReadWriter = \<lparr>Reader = 1, Writer = 0\<rparr>, Conn = 0\<rparr>"

definition written_session :: "ctr_state world" where
  "written_session = snd (CipherConn_Write session_conn [1, 2, 3] eof_session)"

definition closed_session :: "ctr_state world" where
  "closed_session = snd (CipherConn_Close session_conn written_session)"

section \<open>Facts about the builder\<close>

lemma initEncrypt_cfg_cases:
  "fst (snd (initEncrypt ed)) = ed \<or>
   (EncryptStream ed = None \<and> fst (initEncrypt ed) = None \<and>
    (\<exists>s. fst (snd (initEncrypt ed)) = ed\<lparr>EncryptStream := s\<rparr>))"
  by (auto simp: initEncrypt_def split: option.splits sum.splits)

lemma initDecrypt_cfg_cases:
  "fst (snd (initDecrypt ed)) = ed \<or>
   (DecryptStream ed = None \<and> fst (initDecrypt ed) = None \<and>
    (\<exists>s. fst (snd (initDecrypt ed)) = ed\<lparr>DecryptStream := s\<rparr>))"
  by (auto simp: initDecrypt_def split: option.splits sum.splits)

lemma initEncrypt_error_cfg: "fst (initEncrypt ed) = Some e \<Longrightarrow> fst (snd (initEncrypt ed)) = ed"
  by (auto simp: initEncrypt_def split: option.splits sum.splits)

lemma initDecrypt_error_cfg: "fst (initDecrypt ed) = Some e \<Longrightarrow> fst (snd (initDecrypt ed)) = ed"
  by (auto simp: initDecrypt_def split: option.splits sum.splits)

lemma initCipherStream_encrypt_error:
  "fst (initEncrypt ed) = Some e \<Longrightarrow> initCipherStream ed = (Some e, ed, snd (snd (initEncrypt ed)))"
  using initEncrypt_error_cfg [of ed e]
  by (cases "initEncrypt ed") (auto simp: initCipherStream_def)

lemma initCipherStream_encrypt_ok:
  "fst (initEncrypt ed) = None \<Longrightarrow>
   initCipherStream ed =
     (fst (initDecrypt (fst (snd (initEncrypt ed)))),
      fst (snd (initDecrypt (fst (snd (initEncrypt ed))))),
      snd (snd (initEncrypt ed)) @ snd (snd (initDecrypt (fst (snd (initEncrypt ed))))))"
  by (cases "initEncrypt ed") (auto simp: initCipherStream_def split: prod.splits)

lemma Ciphertext_error:
  "fst (initCipherStream ed) = Some e \<Longrightarrow>
   Ciphertext ed c w = (Inl e, fst (snd (initCipherStream ed)), w)"
  by (cases "initCipherStream ed") (auto simp: Ciphertext_def)

lemma Plaintext_error:
  "fst (initCipherStream ed) = Some e \<Longrightarrow>
   Plaintext ed c w = (Inl e, fst (snd (initCipherStream ed)), w)"
  by (cases "initCipherStream ed") (auto simp: Plaintext_def)

lemma Ciphertext_ok_iff:
  "(\<exists>x. fst (Ciphertext ed c w) = Inr x) \<longleftrightarrow> fst (initCipherStream ed) = None"
  by (cases "initCipherStream ed")
     (auto simp: Ciphertext_def Let_def split: option.splits prod.splits)

lemma Plaintext_ok_iff:
  "(\<exists>x. fst (Plaintext ed c w) = Inr x) \<longleftrightarrow> fst (initCipherStream ed) = None"
  by (cases "initCipherStream ed")
     (auto simp: Plaintext_def Let_def split: option.splits prod.splits)

lemma initEncrypt_built:
  assumes "fst (initEncrypt ed) = None" "EncryptStream ed = None"
  shows "\<exists>f k iv. StreamEncrypter ed = Some f \<and> EncryptKey ed = Some k \<and>
           EncryptIV ed = Some iv \<and>
           fst (snd (initEncrypt ed)) = ed\<lparr>EncryptStream := f (Block k) iv\<rparr>"
  using assms
  by (auto simp: initEncrypt_def aes_NewCipher_def split: option.splits sum.splits if_splits)

lemma initDecrypt_built:
  assumes "fst (initDecrypt ed) = None" "DecryptStream ed = None"
  shows "\<exists>f k iv. StreamDecrypter ed = Some f \<and> DecryptKey ed = Some k \<and>
           DecryptIV ed = Some iv \<and>
           fst (snd (initDecrypt ed)) = ed\<lparr>DecryptStream := f (Block k) iv\<rparr>"
  using assms
  by (auto simp: initDecrypt_def aes_NewCipher_def split: option.splits sum.splits if_splits)

lemma initDecrypt_keeps_EncryptStream:
  "EncryptStream (fst (snd (initDecrypt ed))) = EncryptStream ed"
  by (auto simp: initDecrypt_def split: option.splits sum.splits)

lemma initEncrypt_keeps_DecryptStream:
  "DecryptStream (fst (snd (initEncrypt ed))) = DecryptStream ed"
  by (auto simp: initEncrypt_def split: option.splits sum.splits)

lemmas init_defs = initCipherStream_def initEncrypt_def initDecrypt_def

lemma Ciphertext_world_cases:
  "snd (snd (Ciphertext ed c w)) = w \<or> fst (initCipherStream ed) = None"
  by (cases "initCipherStream ed") (auto simp: Ciphertext_def split: option.splits)

lemma Ciphertext_new_tasks:
  "fst (initCipherStream ed) = None \<Longrightarrow>
   tasks (snd (snd (Ciphertext ed c w))) =
     tasks w @
     [\<lparr>task_stream = DecryptStream (fst (snd (initCipherStream ed))),
       task_route = PipeToConn (npipes w) c, task_wrapper = ByStreamReader,
       task_owner = \<lparr>ReadWriter = \<lparr>Reader = Suc (npipes w), Writer = npipes w\<rparr>, Conn = c\<rparr>,
       task_status = Running\<rparr>,
      \<lparr>task_stream = EncryptStream (fst (snd (initCipherStream ed))),
       task_route = ConnToPipe c (Suc (npipes w)), task_wrapper = ByStreamWriter,
       task_owner = \<lparr>ReadWriter = \<lparr>Reader = Suc (npipes w), Writer = npipes w\<rparr>, Conn = c\<rparr>,
       task_status = Running\<rparr>]"
  by (cases "initCipherStream ed")
     (auto simp: Ciphertext_def Let_def io_Pipe_def go_def log_def set_pipe_def)

lemma Plaintext_new_tasks:
  "fst (initCipherStream ed) = None \<Longrightarrow>
   tasks (snd (snd (Plaintext ed c w))) =
     tasks w @
     [\<lparr>task_stream = EncryptStream (fst (snd (initCipherStream ed))),
       task_route = PipeToConn (npipes w) c, task_wrapper = ByStreamWriter,
       task_owner = \<lparr>ReadWriter = \<lparr>Reader = Suc (npipes w), Writer = npipes w\<rparr>, Conn = c\<rparr>,
       task_status = Running\<rparr>,
      \<lparr>task_stream = DecryptStream (fst (snd (initCipherStream ed))),
       task_route = ConnToPipe c (Suc (npipes w)), task_wrapper = ByStreamReader,
       task_owner = \<lparr>ReadWriter = \<lparr>Reader = Suc (npipes w), Writer = npipes w\<rparr>, Conn = c\<rparr>,
       task_status = Running\<rparr>]"
  by (cases "initCipherStream ed")
     (auto simp: Plaintext_def Let_def io_Pipe_def go_def log_def set_pipe_def)

lemma initCipherStream_ok_split:
  assumes ok: "fst (initCipherStream ed) = None"
  shows "fst (initEncrypt ed) = None"
    and "fst (initDecrypt (fst (snd (initEncrypt ed)))) = None"
    and "fst (snd (initCipherStream ed)) = fst (snd (initDecrypt (fst (snd (initEncrypt ed)))))"
proof -
  show e: "fst (initEncrypt ed) = None"
  proof (cases "fst (initEncrypt ed)")
    case None then show ?thesis .
  next
    case (Some err)
    from initCipherStream_encrypt_error [OF this] ok show ?thesis by simp
  qed
  from initCipherStream_encrypt_ok [OF e] ok
  show "fst (initDecrypt (fst (snd (initEncrypt ed)))) = None"
    and "fst (snd (initCipherStream ed)) = fst (snd (initDecrypt (fst (snd (initEncrypt ed)))))"
    by simp_all
qed

lemma initEncrypt_frame:
  "DecryptStream (fst (snd (initEncrypt ed))) = DecryptStream ed \<and>
   StreamDecrypter (fst (snd (initEncrypt ed))) = StreamDecrypter ed \<and>
   DecryptKey (fst (snd (initEncrypt ed))) = DecryptKey ed \<and>
   DecryptIV (fst (snd (initEncrypt ed))) = DecryptIV ed"
  by (auto simp: initEncrypt_def split: option.splits sum.splits)

lemma init_encrypt_kept:
  assumes ok: "fst (initCipherStream ed) = None" and s: "EncryptStream ed = Some s"
  shows "EncryptStream (fst (snd (initCipherStream ed))) = Some s"
  using initCipherStream_ok_split(3) [OF ok] initDecrypt_keeps_EncryptStream
    [of "fst (snd (initEncrypt ed))"] s
  by (simp add: initEncrypt_def)

lemma init_decrypt_kept:
  assumes ok: "fst (initCipherStream ed) = None" and s: "DecryptStream ed = Some s"
  shows "DecryptStream (fst (snd (initCipherStream ed))) = Some s"
proof -
  have "DecryptStream (fst (snd (initEncrypt ed))) = Some s"
    using initEncrypt_frame [of ed] s by simp
  then show ?thesis
    using initCipherStream_ok_split(3) [OF ok] by (simp add: initDecrypt_def)
qed

lemma init_encrypt_stream:
  assumes ok: "fst (initCipherStream ed) = None" and n: "EncryptStream ed = None"
    and m: "StreamEncrypter ed = Some f" "EncryptKey ed = Some k" "EncryptIV ed = Some iv"
  shows "EncryptStream (fst (snd (initCipherStream ed))) = f (Block k) iv"
proof -
  from initEncrypt_built [OF initCipherStream_ok_split(1) [OF ok] n] m
  have "fst (snd (initEncrypt ed)) = ed\<lparr>EncryptStream := f (Block k) iv\<rparr>" by auto
  then show ?thesis
    using initCipherStream_ok_split(3) [OF ok] initDecrypt_keeps_EncryptStream
      [of "fst (snd (initEncrypt ed))"]
    by simp
qed

lemma init_decrypt_stream:
  assumes ok: "fst (initCipherStream ed) = None" and n: "DecryptStream ed = None"
    and m: "StreamDecrypter ed = Some f" "DecryptKey ed = Some k" "DecryptIV ed = Some iv"
  shows "DecryptStream (fst (snd (initCipherStream ed))) = f (Block k) iv"
proof -
  let ?ed1 = "fst (snd (initEncrypt ed))"
  have n1: "DecryptStream ?ed1 = None" and m1: "StreamDecrypter ?ed1 = Some f"
    "DecryptKey ?ed1 = Some k" "DecryptIV ?ed1 = Some iv"
    using initEncrypt_frame [of ed] n m by simp_all
  from initDecrypt_built [OF initCipherStream_ok_split(2) [OF ok] n1] m1
  have "fst (snd (initDecrypt ?ed1)) = ?ed1\<lparr>DecryptStream := f (Block k) iv\<rparr>" by auto
  then show ?thesis using initCipherStream_ok_split(3) [OF ok] by simp
qed

lemma init_material_set:
  assumes ok: "fst (initCipherStream ed) = None"
  shows "EncryptStream ed = None \<Longrightarrow>
           StreamEncrypter ed \<noteq> None \<and> EncryptKey ed \<noteq> None \<and> EncryptIV ed \<noteq> None"
    and "DecryptStream ed = None \<Longrightarrow>
           StreamDecrypter ed \<noteq> None \<and> DecryptKey ed \<noteq> None \<and> DecryptIV ed \<noteq> None"
proof -
  show "StreamEncrypter ed \<noteq> None \<and> EncryptKey ed \<noteq> None \<and> EncryptIV ed \<noteq> None"
    if "EncryptStream ed = None"
    using initEncrypt_built [OF initCipherStream_ok_split(1) [OF ok] that] by auto
  show "StreamDecrypter ed \<noteq> None \<and> DecryptKey ed \<noteq> None \<and> DecryptIV ed \<noteq> None"
    if n: "DecryptStream ed = None"
  proof -
    let ?ed1 = "fst (snd (initEncrypt ed))"
    have "DecryptStream ?ed1 = None" using initEncrypt_frame [of ed] n by simp
    from initDecrypt_built [OF initCipherStream_ok_split(2) [OF ok] this]
    show ?thesis using initEncrypt_frame [of ed] by auto
  qed
qed

lemma both_streams:
  assumes ok: "fst (initCipherStream ed) = None"
    and e: "\<forall>f blk iv. StreamEncrypter ed = Some f \<longrightarrow> f blk iv \<noteq> None"
    and d: "\<forall>f blk iv. StreamDecrypter ed = Some f \<longrightarrow> f blk iv \<noteq> None"
  shows "EncryptStream (fst (snd (initCipherStream ed))) \<noteq> None"
    and "DecryptStream (fst (snd (initCipherStream ed))) \<noteq> None"
proof -
  show "EncryptStream (fst (snd (initCipherStream ed))) \<noteq> None"
  proof (cases "EncryptStream ed")
    case (Some s)
    from init_encrypt_kept [OF ok Some] show ?thesis by simp
  next
    case None
    from init_material_set(1) [OF ok None] obtain f k iv
      where m: "StreamEncrypter ed = Some f" "EncryptKey ed = Some k" "EncryptIV ed = Some iv"
      by auto
    from init_encrypt_stream [OF ok None m] e m(1) show ?thesis by simp
  qed
  show "DecryptStream (fst (snd (initCipherStream ed))) \<noteq> None"
  proof (cases "DecryptStream ed")
    case (Some s)
    from init_decrypt_kept [OF ok Some] show ?thesis by simp
  next
    case None
    from init_material_set(2) [OF ok None] obtain f k iv
      where m: "StreamDecrypter ed = Some f" "DecryptKey ed = Some k" "DecryptIV ed = Some iv"
      by auto
    from init_decrypt_stream [OF ok None m] d m(1) show ?thesis by simp
  qed
qed

lemma aes_NewCipher_vector_key: "aes_NewCipher vector_key = Inr (Block vector_key)"
  by (simp add: aes_NewCipher_def vector_key_def)

lemma initCipherStream_vector_config:
  "initCipherStream (vector_config E) =
     (None,
      (vector_config E)
        \<lparr>EncryptStream := Some (mode_Encrypter (CTR E) (Block vector_key) vector_iv),
         DecryptStream := Some (mode_Decrypter (CTR E) (Block vector_key) vector_iv)\<rparr>,
      [NewCipher Encrypt vector_key, Constructor Encrypt (Block vector_key) vector_iv,
       NewCipher Decrypt vector_key, Constructor Decrypt (Block vector_key) vector_iv])"
  by (simp add: init_defs vector_config_def aes_NewCipher_vector_key NewEncrypter_def
        NewDecrypter_def)

lemma initEncrypt_calls:
  "c \<in> set (snd (snd (initEncrypt ed))) \<Longrightarrow> call_direction c = Encrypt"
  by (auto simp: initEncrypt_def split: option.splits sum.splits)

lemma initDecrypt_calls:
  "c \<in> set (snd (snd (initDecrypt ed))) \<Longrightarrow> call_direction c = Decrypt"
  by (auto simp: initDecrypt_def split: option.splits sum.splits)

lemma initEncrypt_rejected:
  "NewCipher d key \<in> set (snd (snd (initEncrypt ed))) \<Longrightarrow> aes_NewCipher key = Inl e \<Longrightarrow>
   fst (initEncrypt ed) = Some e"
  by (auto simp: initEncrypt_def split: option.splits sum.splits)

lemma initDecrypt_rejected:
  "NewCipher d key \<in> set (snd (snd (initDecrypt ed))) \<Longrightarrow> aes_NewCipher key = Inl e \<Longrightarrow>
   fst (initDecrypt ed) = Some e"
  by (auto simp: initDecrypt_def split: option.splits sum.splits)

lemma initCipherStream_rejected:
  assumes c: "NewCipher d key \<in> set (snd (snd (initCipherStream ed)))"
    and r: "aes_NewCipher key = Inl e"
  shows "fst (initCipherStream ed) = Some e"
proof (cases "fst (initEncrypt ed)")
  case (Some err)
  from initCipherStream_encrypt_error [OF Some] c
  have "NewCipher d key \<in> set (snd (snd (initEncrypt ed)))" by simp
  from initEncrypt_rejected [OF this r] Some initCipherStream_encrypt_error [OF Some]
  show ?thesis by simp
next
  case None
  note eq = initCipherStream_encrypt_ok [OF None]
  from c eq have "NewCipher d key \<in> set (snd (snd (initEncrypt ed))) \<or>
     NewCipher d key \<in> set (snd (snd (initDecrypt (fst (snd (initEncrypt ed))))))" by simp
  then show ?thesis
  proof
    assume "NewCipher d key \<in> set (snd (snd (initEncrypt ed)))"
    from initEncrypt_rejected [OF this r] None show ?thesis by simp
  next
    assume "NewCipher d key \<in> set (snd (snd (initDecrypt (fst (snd (initEncrypt ed))))))"
    from initDecrypt_rejected [OF this r] eq show ?thesis by simp
  qed
qed

lemma aes_NewCipher_Inl:
  "aes_NewCipher key = Inl e \<Longrightarrow> e = KeySizeError (int (length key))"
  by (auto simp: aes_NewCipher_def split: if_splits)

lemma initCipherStream_calls_split:
  "c \<in> set (snd (snd (initCipherStream ed))) \<Longrightarrow>
   c \<in> set (snd (snd (initEncrypt ed))) \<or>
   c \<in> set (snd (snd (initDecrypt (fst (snd (initEncrypt ed))))))"
  by (cases "initEncrypt ed"; cases "initDecrypt (fst (snd (initEncrypt ed)))")
     (auto simp: initCipherStream_def split: option.splits)

lemma initEncrypt_ready:
  "EncryptStream ed = Some s \<Longrightarrow> initEncrypt ed = (None, ed, [])"
  by (simp add: initEncrypt_def)

lemma initDecrypt_ready:
  "DecryptStream ed = Some s \<Longrightarrow> initDecrypt ed = (None, ed, [])"
  by (simp add: initDecrypt_def)

lemma initCipherStream_encrypt_ready:
  "EncryptStream ed = Some s \<Longrightarrow> initCipherStream ed = initDecrypt ed"
  by (simp add: initCipherStream_def initEncrypt_ready)

lemma initDecrypt_encrypt_material:
  "initDecrypt (ed\<lparr>EncryptKey := k, StreamEncrypter := f, EncryptIV := iv\<rparr>) =
     (fst (initDecrypt ed),
      (fst (snd (initDecrypt ed)))\<lparr>EncryptKey := k, StreamEncrypter := f, EncryptIV := iv\<rparr>,
      snd (snd (initDecrypt ed)))"
  by (auto simp: initDecrypt_def split: option.splits sum.splits)

lemma initEncrypt_decrypt_material:
  "initEncrypt (ed\<lparr>DecryptKey := k, StreamDecrypter := f, DecryptIV := iv\<rparr>) =
     (fst (initEncrypt ed),
      (fst (snd (initEncrypt ed)))\<lparr>DecryptKey := k, StreamDecrypter := f, DecryptIV := iv\<rparr>,
      snd (snd (initEncrypt ed)))"
  by (auto simp: initEncrypt_def split: option.splits sum.splits)

lemma initDecrypt_ready_material:
  "DecryptStream ed = Some s \<Longrightarrow>
   initDecrypt (ed\<lparr>DecryptKey := k, StreamDecrypter := f, DecryptIV := iv\<rparr>) =
     (None, ed\<lparr>DecryptKey := k, StreamDecrypter := f, DecryptIV := iv\<rparr>, [])"
  by (simp add: initDecrypt_def)

lemma initCipherStream_decrypt_ready_material:
  assumes r: "DecryptStream ed = Some s"
  shows "initCipherStream (ed\<lparr>DecryptKey := k, StreamDecrypter := f, DecryptIV := iv\<rparr>) =
     (fst (initCipherStream ed),
      (fst (snd (initCipherStream ed)))\<lparr>DecryptKey := k, StreamDecrypter := f, DecryptIV := iv\<rparr>,
      snd (snd (initCipherStream ed)))"
proof -
  obtain r1 ed1 cs1 where e: "initEncrypt ed = (r1, ed1, cs1)" by (cases "initEncrypt ed") auto
  have d: "DecryptStream ed1 = Some s"
    using initEncrypt_keeps_DecryptStream [of ed] e r by simp
  show ?thesis
    by (cases r1)
       (simp_all add: initCipherStream_def initEncrypt_decrypt_material e
          initDecrypt_ready [OF d] initDecrypt_ready_material [OF d])
qed

lemma initCipherStream_again:
  assumes "EncryptStream ed \<noteq> None" and "DecryptStream ed \<noteq> None"
  shows "initCipherStream ed = (None, ed, [])"
  using assms by (auto simp: initCipherStream_def initEncrypt_ready initDecrypt_ready)

section \<open>Facts about connections, pipes and goroutines\<close>

lemma conn_Read_zero:
  "conn_Read c 0 w =
     (Some ([], if conn_closed (conns w c) then Some ErrNetClosed else None),
      log (ConnRead c 0) w)"
  by (simp add: conn_Read_def Let_def)

lemma conn_Write_empty:
  "conn_Write c [] w =
     ((0, if conn_closed (conns w c) then Some ErrNetClosed else None),
      log (ConnWrite c []) w)"
  by (cases w) (auto simp: conn_Write_def Let_def set_conn_def log_def)

lemma closed_world_closed: "conn_closed (conns closed_world 0)"
  by (simp add: closed_world_def conn_Close_def idle_world_def Let_def set_conn_def log_def)

lemma idle_world_open: "\<not> conn_closed (conns idle_world c)"
  by (simp add: idle_world_def)

lemma quiet_refl: "quiet w w"
  by (simp add: quiet_def)

lemma quiet_trans:
  assumes a: "quiet w1 w2" and b: "quiet w2 w3"
  shows "quiet w1 w3"
proof -
  from a obtain es1 where e1: "trace w2 = trace w1 @ es1" "\<forall>e \<in> set es1. \<not> is_pipe_close e"
    unfolding quiet_def by blast
  from b obtain es2 where e2: "trace w3 = trace w2 @ es2" "\<forall>e \<in> set es2. \<not> is_pipe_close e"
    unfolding quiet_def by blast
  have t: "trace w3 = trace w1 @ (es1 @ es2)" "\<forall>e \<in> set (es1 @ es2). \<not> is_pipe_close e"
    using e1 e2 by auto
  have f: "\<forall>p. (pipe_rclosed (pipes w3 p) \<longrightarrow> pipe_rclosed (pipes w1 p)) \<and>
          (pipe_wclosed (pipes w3 p) \<longrightarrow> pipe_wclosed (pipes w1 p))"
    using a b unfolding quiet_def by blast
  show ?thesis unfolding quiet_def using f t by blast
qed

lemma quiet_conn_Read: "quiet w (snd (conn_Read c n w))"
  by (auto simp: quiet_def conn_Read_def Let_def log_def set_conn_def split: list.splits)

lemma quiet_conn_Write: "quiet w (snd (conn_Write c b w))"
  by (auto simp: quiet_def conn_Write_def Let_def log_def set_conn_def)

lemma quiet_conn_Close: "quiet w (snd (conn_Close c w))"
  by (auto simp: quiet_def conn_Close_def Let_def log_def set_conn_def)

lemma quiet_pipe_Read: "quiet w (snd (pipe_Read p n w))"
  by (auto simp: quiet_def pipe_Read_def Let_def log_def set_pipe_def split: list.splits)

lemma quiet_pipe_Write: "quiet w (snd (pipe_Write p b w))"
  by (auto simp: quiet_def pipe_Write_def Let_def log_def set_pipe_def)

lemma quiet_io_Pipe: "quiet w (snd (io_Pipe w))"
  by (auto simp: quiet_def io_Pipe_def log_def set_pipe_def)

lemma quiet_go: "quiet w (go t w)"
  by (auto simp: quiet_def go_def log_def)

lemma quiet_tasks_update: "quiet w (w\<lparr>tasks := ts\<rparr>)"
  by (simp add: quiet_def)

lemma quiet_CipherConn_Read: "quiet w (snd (CipherConn_Read c n w))"
proof -
  obtain r w1 where p: "conn_Read (Conn c) 0 w = (r, w1)" by (cases "conn_Read (Conn c) 0 w")
  have q1: "quiet w w1" using quiet_conn_Read [of w "Conn c" 0] p by simp
  have q2: "quiet w1 (snd (pipe_Read (Reader (ReadWriter c)) n w1))" by (rule quiet_pipe_Read)
  show ?thesis
    using q1 quiet_trans [OF q1 q2]
    by (auto simp: CipherConn_Read_def p split: option.splits)
qed

lemma quiet_CipherConn_Write: "quiet w (snd (CipherConn_Write c b w))"
proof -
  obtain r w1 where p: "conn_Write (Conn c) [] w = (r, w1)" by (cases "conn_Write (Conn c) [] w")
  have q1: "quiet w w1" using quiet_conn_Write [of w "Conn c" "[]"] p by simp
  have q2: "quiet w1 (snd (pipe_Write (Writer (ReadWriter c)) b w1))" by (rule quiet_pipe_Write)
  show ?thesis
    using q1 quiet_trans [OF q1 q2]
    by (auto simp: CipherConn_Write_def p split: option.splits prod.splits)
qed

lemma quiet_CipherConn_Close: "quiet w (snd (CipherConn_Close c w))"
  by (simp add: CipherConn_Close_def quiet_conn_Close)

lemma quiet_spawn:
  assumes p1: "io_Pipe w = (x1, w1)" and p2: "io_Pipe w1 = (x2, w2)"
  shows "quiet w (go t2 (go t1 w2))"
proof -
  have "quiet w w1" using quiet_io_Pipe [of w] p1 by simp
  moreover have "quiet w1 w2" using quiet_io_Pipe [of w1] p2 by simp
  ultimately have "quiet w w2" by (rule quiet_trans)
  then have "quiet w (go t1 w2)" by (rule quiet_trans [OF _ quiet_go])
  then show ?thesis by (rule quiet_trans [OF _ quiet_go])
qed

lemma quiet_Ciphertext: "quiet w (snd (snd (Ciphertext ed c w)))"
proof (cases "initCipherStream ed")
  case (fields r ed' cs)
  show ?thesis
  proof (cases r)
    case None
    with fields show ?thesis
      by (auto simp: Ciphertext_def Let_def split: prod.splits intro: quiet_spawn)
  next
    case (Some e)
    with fields show ?thesis by (simp add: Ciphertext_def quiet_refl)
  qed
qed

lemma quiet_Plaintext: "quiet w (snd (snd (Plaintext ed c w)))"
proof (cases "initCipherStream ed")
  case (fields r ed' cs)
  show ?thesis
  proof (cases r)
    case None
    with fields show ?thesis
      by (auto simp: Plaintext_def Let_def split: prod.splits intro: quiet_spawn)
  next
    case (Some e)
    with fields show ?thesis by (simp add: Plaintext_def quiet_refl)
  qed
qed

lemma quiet_source_Read: "quiet w (snd (source_Read rt n w))"
  by (cases rt) (simp_all add: source_Read_def quiet_pipe_Read quiet_conn_Read)

lemma quiet_sink_Write: "quiet w (snd (sink_Write rt b w))"
  by (cases rt) (simp_all add: sink_Write_def quiet_pipe_Write quiet_conn_Write)

lemma task_Read_world: "snd (snd (task_Read wr rt S n w)) = snd (source_Read rt n w)"
  by (cases wr)
     (auto simp: task_Read_def StreamReader_Read_def split: prod.splits option.splits)

lemma task_Write_world:
  "snd (snd (task_Write wr rt S b w)) =
     snd (sink_Write rt (case wr of ByStreamReader \<Rightarrow> b
                         | ByStreamWriter \<Rightarrow> fst (XORKeyStream S b)) w)"
  by (cases wr)
     (auto simp: task_Write_def StreamWriter_Write_def split: prod.splits option.splits)

lemma quiet_task_Read: "quiet w (snd (snd (task_Read wr rt S n w)))"
  by (simp add: task_Read_world quiet_source_Read)

lemma quiet_task_Write: "quiet w (snd (snd (task_Write wr rt S b w)))"
  by (simp add: task_Write_world quiet_sink_Write)

lemma quiet_copy_step: "quiet w (progress_world (copy_step wr rt S w))"
proof -
  obtain r S1 w1 where rd: "task_Read wr rt S 32768 w = (r, S1, w1)"
    by (cases "task_Read wr rt S 32768 w") auto
  have q1: "quiet w w1" using quiet_task_Read [of w wr rt S 32768] rd by simp
  show ?thesis
  proof (cases r)
    case None
    with rd q1 show ?thesis by (simp add: copy_step_def)
  next
    case (Some be)
    obtain b er where be: "be = (b, er)" by (cases be)
    obtain k S2 w2 where wt: "task_Write wr rt S1 b w1 = (k, S2, w2)"
      by (cases "task_Write wr rt S1 b w1") auto
    have "quiet w1 w2" using quiet_task_Write [of w1 wr rt S1 b] wt by simp
    with q1 have q2: "quiet w w2" by (rule quiet_trans)
    obtain nw ew where k: "k = (nw, ew)" by (cases k)
    show ?thesis using q1 q2
      by (simp add: copy_step_def rd Some be wt k)
  qed
qed

lemma copy_loop_unfold:
  "copy_step wr rt S w = Blocked S1 w1 \<Longrightarrow> copy_loop wr rt S w = (False, S1, w1)"
  "copy_step wr rt S w = Returned S1 w1 \<Longrightarrow> copy_loop wr rt S w = (True, S1, w1)"
  "copy_step wr rt S w = Again S1 w1 \<Longrightarrow> copy_loop wr rt S w = copy_loop wr rt S1 w1"
  by (subst copy_loop.simps, simp)+

lemma quiet_copy_loop: "quiet w (snd (snd (copy_loop wr rt S w)))"
proof (induction wr rt S w rule: copy_loop.induct)
  case (1 wr rt S w)
  show ?case
  proof (cases "copy_step wr rt S w")
    case (Blocked S1 w1)
    with quiet_copy_step [of w wr rt S] show ?thesis by (simp add: copy_loop_unfold)
  next
    case (Returned S1 w1)
    with quiet_copy_step [of w wr rt S] show ?thesis by (simp add: copy_loop_unfold)
  next
    case (Again S1 w1)
    have "quiet w w1" using quiet_copy_step [of w wr rt S] Again by simp
    moreover have "quiet w1 (snd (snd (copy_loop wr rt S1 w1)))" by (rule 1 [OF Again])
    ultimately show ?thesis using Again by (simp add: quiet_trans copy_loop_unfold)
  qed
qed

lemma nil_copy_loop_unfold:
  "nil_copy_step wr rt w = (Some st, w1) \<Longrightarrow> nil_copy_loop wr rt w = (st, w1)"
  "nil_copy_step wr rt w = (None, w1) \<Longrightarrow> nil_copy_loop wr rt w = nil_copy_loop wr rt w1"
  by (subst nil_copy_loop.simps, simp)+

lemma nil_copy_step_world: "snd (nil_copy_step wr rt w) = snd (source_Read rt 32768 w)"
  by (cases wr)
     (auto simp: nil_copy_step_def split: prod.splits option.splits)

lemma quiet_nil_copy_loop: "quiet w (snd (nil_copy_loop wr rt w))"
proof (induction wr rt w rule: nil_copy_loop.induct)
  case (1 wr rt w)
  obtain r w1 where st: "nil_copy_step wr rt w = (r, w1)"
    by (cases "nil_copy_step wr rt w")
  have q: "quiet w w1"
    using quiet_source_Read [of w rt 32768] nil_copy_step_world [of wr rt w] st by simp
  show ?case
  proof (cases r)
    case None
    have "quiet w1 (snd (nil_copy_loop wr rt w1))" using 1 st None by simp
    with q show ?thesis using st None by (simp add: nil_copy_loop_unfold quiet_trans)
  next
    case (Some x)
    with q st show ?thesis by (simp add: nil_copy_loop_unfold)
  qed
qed

lemma quiet_run_task: "quiet w (run_task i w)"
proof (cases "i < length (tasks w) \<and> task_status (tasks w ! i) = Running")
  case False
  then show ?thesis by (auto simp: run_task_def Let_def quiet_refl)
next
  case True
  show ?thesis
  proof (cases "task_stream (tasks w ! i)")
    case None
    let ?t = "tasks w ! i"
    obtain st w1 where l: "nil_copy_loop (task_wrapper ?t) (task_route ?t) w = (st, w1)"
      by (cases "nil_copy_loop (task_wrapper ?t) (task_route ?t) w")
    have q1: "quiet w w1"
      using quiet_nil_copy_loop [of w "task_wrapper ?t" "task_route ?t"] l by simp
    obtain err w2 where c: "CipherConn_Close (task_owner ?t) w1 = (err, w2)"
      by (cases "CipherConn_Close (task_owner ?t) w1")
    have "quiet w1 w2" using quiet_CipherConn_Close [of w1 "task_owner ?t"] c by simp
    with q1 have q2: "quiet w w2" by (rule quiet_trans)
    show ?thesis
      using True None l c quiet_trans [OF q1 quiet_tasks_update]
        quiet_trans [OF q2 quiet_tasks_update]
      by (simp add: run_task_def Let_def)
  next
    case (Some S)
    let ?t = "tasks w ! i"
    obtain fin S1 w1 where l: "copy_loop (task_wrapper ?t) (task_route ?t) S w = (fin, S1, w1)"
      by (cases "copy_loop (task_wrapper ?t) (task_route ?t) S w") auto
    have q1: "quiet w w1"
      using quiet_copy_loop [of w "task_wrapper ?t" "task_route ?t" S] l by simp
    obtain err w2 where c: "CipherConn_Close (task_owner ?t) w1 = (err, w2)"
      by (cases "CipherConn_Close (task_owner ?t) w1")
    have "quiet w1 w2" using quiet_CipherConn_Close [of w1 "task_owner ?t"] c by simp
    with q1 have q2: "quiet w w2" by (rule quiet_trans)
    show ?thesis
      using True Some l c quiet_trans [OF q1 quiet_tasks_update]
        quiet_trans [OF q2 quiet_tasks_update]
      by (cases fin) (simp_all add: run_task_def Let_def)
  qed
qed

lemma quiet_perform: "quiet w (perform x w)"
  by (cases x)
     (simp_all add: quiet_Ciphertext quiet_Plaintext quiet_CipherConn_Read
        quiet_CipherConn_Write quiet_CipherConn_Close quiet_run_task)

lemma quiet_perform_all: "quiet w (perform_all xs w)"
proof (induction xs arbitrary: w)
  case Nil
  show ?case by (simp add: quiet_refl)
next
  case (Cons x xs)
  have "quiet w (perform x w)" by (rule quiet_perform)
  moreover have "quiet (perform x w) (perform_all xs (perform x w))" by (rule Cons.IH)
  ultimately show ?case by (simp add: quiet_trans)
qed

lemma CipherConn_Close_frame:
  "pipes (snd (CipherConn_Close c w)) = pipes w \<and>
   tasks (snd (CipherConn_Close c w)) = tasks w \<and>
   npipes (snd (CipherConn_Close c w)) = npipes w \<and>
   trace (snd (CipherConn_Close c w)) = trace w @ [ConnClose (Conn c)] \<and>
   (\<forall>k. k \<noteq> Conn c \<longrightarrow> conns (snd (CipherConn_Close c w)) k = conns w k) \<and>
   conn_closed (conns (snd (CipherConn_Close c w)) (Conn c))"
  by (simp add: CipherConn_Close_def conn_Close_def Let_def log_def set_conn_def)

lemma tasks_source_Read: "tasks (snd (source_Read rt n w)) = tasks w"
  by (cases rt)
     (auto simp: source_Read_def pipe_Read_def conn_Read_def Let_def log_def set_pipe_def
        set_conn_def split: list.splits)

lemma tasks_sink_Write: "tasks (snd (sink_Write rt b w)) = tasks w"
  by (cases rt)
     (auto simp: sink_Write_def pipe_Write_def conn_Write_def Let_def log_def set_pipe_def
        set_conn_def)

lemma tasks_copy_step: "tasks (progress_world (copy_step wr rt S w)) = tasks w"
proof -
  obtain r S1 w1 where rd: "task_Read wr rt S 32768 w = (r, S1, w1)"
    by (cases "task_Read wr rt S 32768 w") auto
  have q1: "tasks w1 = tasks w"
    using task_Read_world [of wr rt S 32768 w] tasks_source_Read [of rt 32768 w] rd by simp
  show ?thesis
  proof (cases r)
    case None
    with rd q1 show ?thesis by (simp add: copy_step_def)
  next
    case (Some be)
    obtain b er where be: "be = (b, er)" by (cases be)
    obtain k S2 w2 where wt: "task_Write wr rt S1 b w1 = (k, S2, w2)"
      by (cases "task_Write wr rt S1 b w1") auto
    have "tasks w2 = tasks w1"
      using task_Write_world [of wr rt S1 b w1] wt tasks_sink_Write [of rt _ w1] by simp
    with q1 have q2: "tasks w2 = tasks w" by simp
    obtain nw ew where k: "k = (nw, ew)" by (cases k)
    show ?thesis using q1 q2
      by (simp add: copy_step_def rd Some be wt k)
  qed
qed

lemma tasks_copy_loop: "tasks (snd (snd (copy_loop wr rt S w))) = tasks w"
proof (induction wr rt S w rule: copy_loop.induct)
  case (1 wr rt S w)
  show ?case
  proof (cases "copy_step wr rt S w")
    case (Blocked S1 w1)
    with tasks_copy_step [of wr rt S w] show ?thesis by (simp add: copy_loop_unfold)
  next
    case (Returned S1 w1)
    with tasks_copy_step [of wr rt S w] show ?thesis by (simp add: copy_loop_unfold)
  next
    case (Again S1 w1)
    have "tasks w1 = tasks w" using tasks_copy_step [of wr rt S w] Again by simp
    moreover have "tasks (snd (snd (copy_loop wr rt S1 w1))) = tasks w1" by (rule 1 [OF Again])
    ultimately show ?thesis using Again by (simp add: copy_loop_unfold)
  qed
qed

lemma tasks_nil_copy_loop: "tasks (snd (nil_copy_loop wr rt w)) = tasks w"
proof (induction wr rt w rule: nil_copy_loop.induct)
  case (1 wr rt w)
  obtain r w1 where st: "nil_copy_step wr rt w = (r, w1)"
    by (cases "nil_copy_step wr rt w")
  have q: "tasks w1 = tasks w"
    using tasks_source_Read [of rt 32768 w] nil_copy_step_world [of wr rt w] st by simp
  show ?case
  proof (cases r)
    case None
    have "tasks (snd (nil_copy_loop wr rt w1)) = tasks w1" using 1 st None by simp
    with q show ?thesis using st None by (simp add: nil_copy_loop_unfold)
  next
    case (Some x)
    with q st show ?thesis by (simp add: nil_copy_loop_unfold)
  qed
qed

lemma run_task_finished:
  assumes i: "i < length (tasks w)"
    and r: "task_status (tasks w ! i) = Running"
    and f: "task_status (tasks (run_task i w) ! i) = Finished"
  shows "conn_closed (conns (run_task i w) (Conn (task_owner (tasks w ! i)))) \<and>
         last (trace (run_task i w)) = ConnClose (Conn (task_owner (tasks w ! i)))"
proof (cases "task_stream (tasks w ! i)")
  case None
  let ?t = "tasks w ! i"
  obtain st w1 where l: "nil_copy_loop (task_wrapper ?t) (task_route ?t) w = (st, w1)"
    by (cases "nil_copy_loop (task_wrapper ?t) (task_route ?t) w")
  have t1: "tasks w1 = tasks w"
    using tasks_nil_copy_loop [of "task_wrapper ?t" "task_route ?t" w] l by simp
  show ?thesis
  proof (cases "st = Finished")
    case False
    with i r f None l t1 show ?thesis by (simp add: run_task_def Let_def)
  next
    case True
    obtain err w2 where c: "CipherConn_Close (task_owner ?t) w1 = (err, w2)"
      by (cases "CipherConn_Close (task_owner ?t) w1")
    have "conn_closed (conns w2 (Conn (task_owner ?t)))"
      "trace w2 = trace w1 @ [ConnClose (Conn (task_owner ?t))]"
      using CipherConn_Close_frame [of "task_owner ?t" w1] c by simp_all
    with True i r None l c show ?thesis by (simp add: run_task_def Let_def)
  qed
next
  case (Some S)
  let ?t = "tasks w ! i"
  obtain fin S1 w1 where l: "copy_loop (task_wrapper ?t) (task_route ?t) S w = (fin, S1, w1)"
    by (cases "copy_loop (task_wrapper ?t) (task_route ?t) S w") auto
  have t1: "tasks w1 = tasks w"
    using tasks_copy_loop [of "task_wrapper ?t" "task_route ?t" S w] l by simp
  show ?thesis
  proof (cases fin)
    case False
    with i r f Some l t1 show ?thesis by (simp add: run_task_def Let_def)
  next
    case True
    obtain err w2 where c: "CipherConn_Close (task_owner ?t) w1 = (err, w2)"
      by (cases "CipherConn_Close (task_owner ?t) w1")
    have "conn_closed (conns w2 (Conn (task_owner ?t)))"
      "trace w2 = trace w1 @ [ConnClose (Conn (task_owner ?t))]"
      using CipherConn_Close_frame [of "task_owner ?t" w1] c by simp_all
    with True i r Some l c show ?thesis by (simp add: run_task_def Let_def)
  qed
qed

lemma Ciphertext_Inr:
  assumes "fst (Ciphertext ed c w) = Inr g"
  shows "g = \<lparr>ReadWriter = \<lparr>Reader = Suc (npipes w), Writer = npipes w\<rparr>, Conn = c\<rparr> \<and>
         pipes (snd (snd (Ciphertext ed c w))) (npipes w) =
           \<lparr>pipe_pending = [], pipe_rclosed = False, pipe_wclosed = False\<rparr> \<and>
         pipes (snd (snd (Ciphertext ed c w))) (Suc (npipes w)) =
           \<lparr>pipe_pending = [], pipe_rclosed = False, pipe_wclosed = False\<rparr>"
  using assms
  by (cases "initCipherStream ed")
     (auto simp: Ciphertext_def Let_def io_Pipe_def go_def log_def set_pipe_def
        split: option.splits)

lemma Plaintext_Inr:
  assumes "fst (Plaintext ed c w) = Inr g"
  shows "g = \<lparr>ReadWriter = \<lparr>Reader = Suc (npipes w), Writer = npipes w\<rparr>, Conn = c\<rparr> \<and>
         pipes (snd (snd (Plaintext ed c w))) (npipes w) =
           \<lparr>pipe_pending = [], pipe_rclosed = False, pipe_wclosed = False\<rparr> \<and>
         pipes (snd (snd (Plaintext ed c w))) (Suc (npipes w)) =
           \<lparr>pipe_pending = [], pipe_rclosed = False, pipe_wclosed = False\<rparr>"
  using assms
  by (cases "initCipherStream ed")
     (auto simp: Plaintext_def Let_def io_Pipe_def go_def log_def set_pipe_def
        split: option.splits)

lemma quiet_open:
  "quiet w w' \<Longrightarrow> \<not> pipe_rclosed (pipes w p) \<Longrightarrow> \<not> pipe_rclosed (pipes w' p)"
  "quiet w w' \<Longrightarrow> \<not> pipe_wclosed (pipes w p) \<Longrightarrow> \<not> pipe_wclosed (pipes w' p)"
  unfolding quiet_def by blast+

lemma quiet_trace:
  assumes "quiet w w'"
  shows "take (length (trace w)) (trace w') = trace w"
    and "\<forall>e \<in> set (drop (length (trace w)) (trace w')). \<not> is_pipe_close e"
proof -
  from assms obtain es where "trace w' = trace w @ es" "\<forall>e \<in> set es. \<not> is_pipe_close e"
    unfolding quiet_def by blast
  then show "take (length (trace w)) (trace w') = trace w"
    and "\<forall>e \<in> set (drop (length (trace w)) (trace w')). \<not> is_pipe_close e" by simp_all
qed

lemma pipe_Read_blocked_iff:
  "fst (pipe_Read p n w) = None \<longleftrightarrow>
     \<not> pipe_rclosed (pipes w p) \<and> pipe_pending (pipes w p) = [] \<and> \<not> pipe_wclosed (pipes w p)"
  by (auto simp: pipe_Read_def Let_def split: list.splits)

lemma run_step_Cons:
  "run_step f s (x # xs) =
     (fst (f s x) # fst (run_step f (snd (f s x)) xs), snd (run_step f (snd (f s x)) xs))"
  by (simp split: prod.splits)

lemma XORKeyStream_alt:
  "XORKeyStream (Stream s f) src = (fst (run_step f s src), Stream (snd (run_step f s src)) f)"
  by (simp split: prod.splits)

lemma run_step_append:
  "run_step f s (xs @ ys) =
     (fst (run_step f s xs) @ fst (run_step f (snd (run_step f s xs)) ys),
      snd (run_step f (snd (run_step f s xs)) ys))"
  by (induction xs arbitrary: s) (simp_all add: run_step_Cons del: run_step.simps(2))

lemma XORKeyStream_append:
  "XORKeyStream S (xs @ ys) =
     (fst (XORKeyStream S xs) @ fst (XORKeyStream (snd (XORKeyStream S xs)) ys),
      snd (XORKeyStream (snd (XORKeyStream S xs)) ys))"
  by (cases S) (simp add: XORKeyStream_alt run_step_append del: XORKeyStream.simps)

lemma XORKeyStream_Nil: "XORKeyStream S [] = ([], S)"
  by (cases S) simp

lemma XORKeyStream_take_drop:
  "fst (XORKeyStream S (take n b)) @ fst (XORKeyStream (snd (XORKeyStream S (take n b))) (drop n b))
     = fst (XORKeyStream S b)"
  "snd (XORKeyStream (snd (XORKeyStream S (take n b))) (drop n b)) = snd (XORKeyStream S b)"
  using XORKeyStream_append [of S "take n b" "drop n b"] by simp_all

lemma length_run_step: "length (fst (run_step f s xs)) = length xs"
  by (induction xs arbitrary: s) (simp_all add: run_step_Cons del: run_step.simps(2))

lemma length_XORKeyStream: "length (fst (XORKeyStream S xs)) = length xs"
  by (cases S) (simp add: XORKeyStream_alt length_run_step del: XORKeyStream.simps)

lemma run_step_round_trip:
  "fst (run_step (decrypt_step m) s (fst (run_step (encrypt_step m) s ps))) = ps \<and>
   snd (run_step (decrypt_step m) s (fst (run_step (encrypt_step m) s ps))) =
     snd (run_step (encrypt_step m) s ps)"
  by (induction ps arbitrary: s)
     (simp_all add: run_step_Cons encrypt_step_def decrypt_step_def Let_def xor.assoc
        del: run_step.simps(2))

lemma mode_round_trip:
  "fst (XORKeyStream (mode_Decrypter m blk iv)
         (fst (XORKeyStream (mode_Encrypter m blk iv) ps))) = ps"
  by (simp add: mode_Decrypter_def mode_Encrypter_def XORKeyStream_alt run_step_round_trip
        del: XORKeyStream.simps)

lemma copy_step_ConnToPipe_empty:
  assumes "\<not> conn_closed (conns w c)" and "conn_rx (conns w c) = []"
  shows "\<exists>w'. copy_step wr (ConnToPipe c p) S w = Blocked S w' \<and>
              pipes w' = pipes w \<and> conns w' = conns w"
  using assms
  by (cases wr)
     (simp_all add: copy_step_def task_Read_def StreamReader_Read_def source_Read_def
        conn_Read_def Let_def log_def)

lemma copy_step_ConnToPipe_entry:
  assumes o: "\<not> conn_closed (conns w c)" "\<not> pipe_rclosed (pipes w p)"
      "\<not> pipe_wclosed (pipes w p)"
    and rx: "conn_rx (conns w c) = (b, e) # rest"
  shows "\<exists>w'. copy_step wr (ConnToPipe c p) S w =
            (if length b \<le> 32768 \<and> e \<noteq> None then Returned else Again)
              (snd (XORKeyStream S (take 32768 b))) w' \<and>
          \<not> conn_closed (conns w' c) \<and> \<not> pipe_rclosed (pipes w' p) \<and>
          \<not> pipe_wclosed (pipes w' p) \<and>
          conn_rx (conns w' c) =
            (if length b \<le> 32768 then rest else (drop 32768 b, e) # rest) \<and>
          concat (pipe_pending (pipes w' p)) =
            concat (pipe_pending (pipes w p)) @ fst (XORKeyStream S (take 32768 b))"
proof (cases wr)
  case ByStreamReader
  show ?thesis
    using o rx length_XORKeyStream [of S b] length_XORKeyStream [of S "take 32768 b"]
    by (cases "XORKeyStream S b"; cases "XORKeyStream S (take 32768 b)"; cases "b = []")
       (auto simp: ByStreamReader copy_step_def task_Read_def task_Write_def
          StreamReader_Read_def source_Read_def sink_Write_def conn_Read_def pipe_Write_def
          Let_def log_def set_conn_def set_pipe_def XORKeyStream_Nil)
next
  case ByStreamWriter
  show ?thesis
    using o rx length_XORKeyStream [of S b] length_XORKeyStream [of S "take 32768 b"]
    by (cases "XORKeyStream S b"; cases "XORKeyStream S (take 32768 b)"; cases "b = []")
       (auto simp: ByStreamWriter copy_step_def task_Read_def task_Write_def
          StreamWriter_Write_def source_Read_def sink_Write_def conn_Read_def pipe_Write_def
          Let_def log_def set_conn_def set_pipe_def XORKeyStream_Nil)
qed

lemma consumed_clip:
  "consumed ((b, e) # rest) = take n b @ consumed ((drop n b, e) # rest)"
  by simp

lemma copy_loop_ConnToPipe:
  assumes "\<not> conn_closed (conns w c)" "\<not> pipe_rclosed (pipes w p)"
      "\<not> pipe_wclosed (pipes w p)"
  shows "fst (copy_loop wr (ConnToPipe c p) S w) = ends (conn_rx (conns w c)) \<and>
         fst (snd (copy_loop wr (ConnToPipe c p) S w)) =
           snd (XORKeyStream S (consumed (conn_rx (conns w c)))) \<and>
         concat (pipe_pending (pipes (snd (snd (copy_loop wr (ConnToPipe c p) S w))) p)) =
           concat (pipe_pending (pipes w p)) @
           fst (XORKeyStream S (consumed (conn_rx (conns w c))))"
  using assms
proof (induction wr "ConnToPipe c p" S w rule: copy_loop.induct)
  case (1 wr S w)
  note o = "1.prems"
  show ?case
  proof (cases "conn_rx (conns w c)")
    case Nil
    from copy_step_ConnToPipe_empty [OF o(1) Nil, of wr p S]
    obtain w' where st: "copy_step wr (ConnToPipe c p) S w = Blocked S w'"
      and fr: "pipes w' = pipes w" by blast
    show ?thesis
      by (simp add: copy_loop_unfold(1) [OF st] fr Nil XORKeyStream_Nil)
  next
    case (Cons be rest)
    obtain b e where be: "be = (b, e)" by (cases be)
    note rx = Cons [unfolded be]
    from copy_step_ConnToPipe_entry [OF o rx, of wr S]
    obtain w' where st: "copy_step wr (ConnToPipe c p) S w =
            (if length b \<le> 32768 \<and> e \<noteq> None then Returned else Again)
              (snd (XORKeyStream S (take 32768 b))) w'"
      and o': "\<not> conn_closed (conns w' c)" "\<not> pipe_rclosed (pipes w' p)"
        "\<not> pipe_wclosed (pipes w' p)"
      and rx': "conn_rx (conns w' c) =
            (if length b \<le> 32768 then rest else (drop 32768 b, e) # rest)"
      and pd: "concat (pipe_pending (pipes w' p)) =
            concat (pipe_pending (pipes w p)) @ fst (XORKeyStream S (take 32768 b))"
      by blast
    let ?S1 = "snd (XORKeyStream S (take 32768 b))"
    show ?thesis
    proof (cases "length b \<le> 32768 \<and> e \<noteq> None")
      case True
      then have st': "copy_step wr (ConnToPipe c p) S w = Returned ?S1 w'" using st by simp
      show ?thesis
        using True pd
        by (auto simp: copy_loop_unfold(2) [OF st'] rx)
    next
      case False
      then have st': "copy_step wr (ConnToPipe c p) S w = Again ?S1 w'" using st by simp
      note ih = "1.hyps" [OF st' o']
      have lp: "copy_loop wr (ConnToPipe c p) S w = copy_loop wr (ConnToPipe c p) ?S1 w'"
        by (rule copy_loop_unfold(3) [OF st'])
      show ?thesis
      proof (cases "length b \<le> 32768")
        case True
        with False have e: "e = None" by simp
        from True have tk: "take 32768 b = b" by simp
        show ?thesis
          using ih pd XORKeyStream_append [of S b "consumed rest"]
          by (simp add: lp rx rx' True e tk)
      next
        case F: False
        have c: "consumed ((b, e) # rest) =
            take 32768 b @ consumed ((drop 32768 b, e) # rest)"
          by (rule consumed_clip)
        have en: "ends ((b, e) # rest) = ends ((drop 32768 b, e) # rest)" by simp
        show ?thesis
          using ih pd XORKeyStream_append [of S "take 32768 b"
              "consumed ((drop 32768 b, e) # rest)"]
          unfolding lp rx rx' c en using F by simp
      qed
    qed
  qed
qed

lemma copy_step_PipeToConn_empty:
  assumes "\<not> pipe_rclosed (pipes w p)" and "pipe_pending (pipes w p) = []"
  shows "\<exists>w'. copy_step wr (PipeToConn p c) S w =
            (if pipe_wclosed (pipes w p) then Returned S w' else Blocked S w') \<and>
          pipes w' = pipes w \<and> conns w' = conns w"
  using assms
  by (cases wr)
     (simp_all add: copy_step_def task_Read_def StreamReader_Read_def source_Read_def
        pipe_Read_def Let_def log_def XORKeyStream_Nil)

lemma copy_step_PipeToConn_chunk:
  assumes o: "\<not> conn_closed (conns w c)" "\<not> pipe_rclosed (pipes w p)"
    and pd: "pipe_pending (pipes w p) = b # rest"
  shows "\<exists>w'. copy_step wr (PipeToConn p c) S w =
            Again (snd (XORKeyStream S (take 32768 b))) w' \<and>
          \<not> conn_closed (conns w' c) \<and> \<not> pipe_rclosed (pipes w' p) \<and>
          pipe_wclosed (pipes w' p) = pipe_wclosed (pipes w p) \<and>
          pipe_pending (pipes w' p) =
            (if length b \<le> 32768 then rest else drop 32768 b # rest) \<and>
          conn_tx (conns w' c) = conn_tx (conns w c) @ fst (XORKeyStream S (take 32768 b))"
proof (cases wr)
  case ByStreamReader
  show ?thesis
    using o pd length_XORKeyStream [of S b] length_XORKeyStream [of S "take 32768 b"]
    by (cases "XORKeyStream S b"; cases "XORKeyStream S (take 32768 b)"; cases "b = []")
       (auto simp: ByStreamReader copy_step_def task_Read_def task_Write_def
          StreamReader_Read_def source_Read_def sink_Write_def pipe_Read_def conn_Write_def
          Let_def log_def set_conn_def set_pipe_def XORKeyStream_Nil)
next
  case ByStreamWriter
  show ?thesis
    using o pd length_XORKeyStream [of S b] length_XORKeyStream [of S "take 32768 b"]
    by (cases "XORKeyStream S b"; cases "XORKeyStream S (take 32768 b)"; cases "b = []")
       (auto simp: ByStreamWriter copy_step_def task_Read_def task_Write_def
          StreamWriter_Write_def source_Read_def sink_Write_def pipe_Read_def conn_Write_def
          Let_def log_def set_conn_def set_pipe_def XORKeyStream_Nil)
qed

lemma copy_loop_PipeToConn:
  assumes "\<not> conn_closed (conns w c)" "\<not> pipe_rclosed (pipes w p)"
  shows "fst (copy_loop wr (PipeToConn p c) S w) = pipe_wclosed (pipes w p) \<and>
         fst (snd (copy_loop wr (PipeToConn p c) S w)) =
           snd (XORKeyStream S (concat (pipe_pending (pipes w p)))) \<and>
         conn_tx (conns (snd (snd (copy_loop wr (PipeToConn p c) S w))) c) =
           conn_tx (conns w c) @ fst (XORKeyStream S (concat (pipe_pending (pipes w p)))) \<and>
         pipe_pending (pipes (snd (snd (copy_loop wr (PipeToConn p c) S w))) p) = [] \<and>
         \<not> conn_closed (conns (snd (snd (copy_loop wr (PipeToConn p c) S w))) c)"
  using assms
proof (induction wr "PipeToConn p c" S w rule: copy_loop.induct)
  case (1 wr S w)
  note o = "1.prems"
  show ?case
  proof (cases "pipe_pending (pipes w p)")
    case Nil
    from copy_step_PipeToConn_empty [OF o(2) Nil, of wr c S]
    obtain w' where st: "copy_step wr (PipeToConn p c) S w =
            (if pipe_wclosed (pipes w p) then Returned S w' else Blocked S w')"
      and fr: "pipes w' = pipes w" "conns w' = conns w" by blast
    show ?thesis
    proof (cases "pipe_wclosed (pipes w p)")
      case True
      with st have st': "copy_step wr (PipeToConn p c) S w = Returned S w'" by simp
      show ?thesis using True o
        by (simp add: copy_loop_unfold(2) [OF st'] fr Nil XORKeyStream_Nil)
    next
      case False
      with st have st': "copy_step wr (PipeToConn p c) S w = Blocked S w'" by simp
      show ?thesis using False o
        by (simp add: copy_loop_unfold(1) [OF st'] fr Nil XORKeyStream_Nil)
    qed
  next
    case (Cons b rest)
    from copy_step_PipeToConn_chunk [OF o Cons, of wr S]
    obtain w' where st: "copy_step wr (PipeToConn p c) S w =
            Again (snd (XORKeyStream S (take 32768 b))) w'"
      and o': "\<not> conn_closed (conns w' c)" "\<not> pipe_rclosed (pipes w' p)"
      and wc: "pipe_wclosed (pipes w' p) = pipe_wclosed (pipes w p)"
      and pd': "pipe_pending (pipes w' p) =
            (if length b \<le> 32768 then rest else drop 32768 b # rest)"
      and tx: "conn_tx (conns w' c) =
            conn_tx (conns w c) @ fst (XORKeyStream S (take 32768 b))"
      by blast
    let ?S1 = "snd (XORKeyStream S (take 32768 b))"
    note ih = "1.hyps" [OF st o']
    note lp = copy_loop_unfold(3) [OF st]
    have cc: "concat (pipe_pending (pipes w p)) =
        take 32768 b @ concat (pipe_pending (pipes w' p))"
      by (simp add: Cons pd')
    show ?thesis
      using ih XORKeyStream_append [of S "take 32768 b" "concat (pipe_pending (pipes w' p))"]
      unfolding lp cc by (simp add: tx wc)
  qed
qed

lemma run_task_copy:
  assumes i: "i < length (tasks w)"
    and r: "task_status (tasks w ! i) = Running"
    and s: "task_stream (tasks w ! i) = Some S"
  shows "pipes (run_task i w) =
           pipes (snd (snd (copy_loop (task_wrapper (tasks w ! i)) (task_route (tasks w ! i)) S w)))"
    and "\<not> fst (copy_loop (task_wrapper (tasks w ! i)) (task_route (tasks w ! i)) S w) \<Longrightarrow>
         conns (run_task i w) =
           conns (snd (snd (copy_loop (task_wrapper (tasks w ! i)) (task_route (tasks w ! i)) S w)))"
    and "task_status (tasks (run_task i w) ! i) =
           (if fst (copy_loop (task_wrapper (tasks w ! i)) (task_route (tasks w ! i)) S w)
            then Finished else Running)"
proof -
  let ?t = "tasks w ! i"
  obtain fin S1 w1 where l: "copy_loop (task_wrapper ?t) (task_route ?t) S w = (fin, S1, w1)"
    by (cases "copy_loop (task_wrapper ?t) (task_route ?t) S w") auto
  have t1: "tasks w1 = tasks w"
    using tasks_copy_loop [of "task_wrapper ?t" "task_route ?t" S w] l by simp
  obtain err w2 where c: "CipherConn_Close (task_owner ?t) w1 = (err, w2)"
    by (cases "CipherConn_Close (task_owner ?t) w1")
  have f: "pipes w2 = pipes w1" "tasks w2 = tasks w1"
    using CipherConn_Close_frame [of "task_owner ?t" w1] c by simp_all
  show "pipes (run_task i w) = pipes (snd (snd (copy_loop (task_wrapper ?t) (task_route ?t) S w)))"
    using i r s l c f by (cases fin) (simp_all add: run_task_def Let_def)
  show "conns (run_task i w) =
           conns (snd (snd (copy_loop (task_wrapper ?t) (task_route ?t) S w)))"
    if "\<not> fst (copy_loop (task_wrapper ?t) (task_route ?t) S w)"
    using that i r s l by (simp add: run_task_def Let_def)
  show "task_status (tasks (run_task i w) ! i) =
           (if fst (copy_loop (task_wrapper ?t) (task_route ?t) S w) then Finished else Running)"
    using i r s l c f t1 by (cases fin) (simp_all add: run_task_def Let_def)
qed

lemma Ciphertext_conns: "conns (snd (snd (Ciphertext ed c w))) = conns w"
  by (cases "initCipherStream ed")
     (auto simp: Ciphertext_def Let_def io_Pipe_def go_def log_def set_pipe_def
        split: option.splits)

lemma Plaintext_conns: "conns (snd (snd (Plaintext ed c w))) = conns w"
  by (cases "initCipherStream ed")
     (auto simp: Plaintext_def Let_def io_Pipe_def go_def log_def set_pipe_def
        split: option.splits)

lemma CipherConn_Write_open:
  assumes "\<not> conn_closed (conns w (Conn g))"
    and "\<not> pipe_rclosed (pipes w (Writer (ReadWriter g)))"
    and "\<not> pipe_wclosed (pipes w (Writer (ReadWriter g)))"
  shows "fst (CipherConn_Write g b w) = (length b, None)"
    and "conns (snd (CipherConn_Write g b w)) = conns w"
    and "tasks (snd (CipherConn_Write g b w)) = tasks w"
    and "pipes (snd (CipherConn_Write g b w)) =
           (pipes w)(Writer (ReadWriter g) :=
              (pipes w (Writer (ReadWriter g)))
                \<lparr>pipe_pending := pipe_pending (pipes w (Writer (ReadWriter g))) @ [b]\<rparr>)"
  using assms
  by (simp_all add: CipherConn_Write_def conn_Write_empty pipe_Write_def Let_def log_def
        set_pipe_def)

lemma take3:
  assumes "length xs = 16"
  shows "take 3 xs = [xs ! 0, xs ! 1, xs ! 2]"
proof -
  from assms obtain a b c ys where "xs = a # b # c # ys"
    by (cases xs; cases "tl xs"; cases "tl (tl xs)") auto
  then show ?thesis by simp
qed

lemma CTR_keystream_3:
  "length (E key iv) = 16 \<Longrightarrow>
   CTR_keystream E key iv 3 = [E key iv ! 0, E key iv ! 1, E key iv ! 2]"
  by (simp add: CTR_keystream_def take3)

lemma CTR_decrypt_3:
  "fst (XORKeyStream (mode_Decrypter (CTR E) (Block key) iv) [a, b, c]) =
     [a XOR E key iv ! 0, b XOR E key iv ! 1, c XOR E key iv ! 2]"
  by (simp add: mode_Decrypter_def CTR_def decrypt_step_def numeral_2_eq_2)

lemma Plaintext_new_tasks_nth:
  assumes ok: "fst (initCipherStream ed) = None"
  shows "Suc (length (tasks w)) < length (tasks (snd (snd (Plaintext ed c w))))"
    and "tasks (snd (snd (Plaintext ed c w))) ! Suc (length (tasks w)) =
      \<lparr>task_stream = DecryptStream (fst (snd (initCipherStream ed))),
       task_route = ConnToPipe c (Suc (npipes w)), task_wrapper = ByStreamReader,
       task_owner = \<lparr>ReadWriter = \<lparr>Reader = Suc (npipes w), Writer = npipes w\<rparr>, Conn = c\<rparr>,
       task_status = Running\<rparr>"
  by (simp_all add: Plaintext_new_tasks [OF ok] nth_append)

lemma Ciphertext_new_tasks_nth:
  assumes ok: "fst (initCipherStream ed) = None"
  shows "Suc (length (tasks w)) < length (tasks (snd (snd (Ciphertext ed c w))))"
    and "tasks (snd (snd (Ciphertext ed c w))) ! Suc (length (tasks w)) =
      \<lparr>task_stream = EncryptStream (fst (snd (initCipherStream ed))),
       task_route = ConnToPipe c (Suc (npipes w)), task_wrapper = ByStreamWriter,
       task_owner = \<lparr>ReadWriter = \<lparr>Reader = Suc (npipes w), Writer = npipes w\<rparr>, Conn = c\<rparr>,
       task_status = Running\<rparr>"
  by (simp_all add: Ciphertext_new_tasks [OF ok] nth_append)

lemma Ciphertext_encrypt_task:
  assumes g: "fst (Ciphertext ed a w) = Inr g"
    and s: "EncryptStream (fst (snd (initCipherStream ed))) = Some S"
    and op: "\<not> conn_closed (conns w a)"
  shows "concat (pipe_pending (pipes (run_task (Suc (length (tasks w)))
                                        (snd (snd (Ciphertext ed a w))))
                                 (Reader (ReadWriter g)))) =
           fst (XORKeyStream S (consumed (conn_rx (conns w a))))"
    and "task_status (tasks (run_task (Suc (length (tasks w))) (snd (snd (Ciphertext ed a w))))
                      ! Suc (length (tasks w))) =
           (if ends (conn_rx (conns w a)) then Finished else Running)"
proof -
  let ?w1 = "snd (snd (Ciphertext ed a w))"
  let ?i = "Suc (length (tasks w))"
  let ?p = "Suc (npipes w)"
  have ok: "fst (initCipherStream ed) = None"
    using g Ciphertext_ok_iff [of ed a w] by auto
  note gi = Ciphertext_Inr [OF g]
  have gr: "Reader (ReadWriter g) = ?p" using gi by simp
  have p1: "pipes ?w1 ?p = \<lparr>pipe_pending = [], pipe_rclosed = False, pipe_wclosed = False\<rparr>"
    using gi by simp
  have c1: "conns ?w1 = conns w" by (rule Ciphertext_conns)
  note tk = Ciphertext_new_tasks_nth [OF ok, where w = w and c = a]
  have r: "task_status (tasks ?w1 ! ?i) = Running"
    and st: "task_stream (tasks ?w1 ! ?i) = Some S"
    and rt: "task_route (tasks ?w1 ! ?i) = ConnToPipe a ?p"
    by (simp_all add: tk(2) s)
  have o: "\<not> conn_closed (conns ?w1 a)" "\<not> pipe_rclosed (pipes ?w1 ?p)"
    "\<not> pipe_wclosed (pipes ?w1 ?p)"
    using op by (simp_all add: c1 p1)
  note lp = copy_loop_ConnToPipe [OF o, of "task_wrapper (tasks ?w1 ! ?i)" S]
  show "concat (pipe_pending (pipes (run_task ?i ?w1) (Reader (ReadWriter g)))) =
           fst (XORKeyStream S (consumed (conn_rx (conns w a))))"
    using lp by (simp add: run_task_copy(1) [OF tk(1) r st] rt gr p1 c1)
  show "task_status (tasks (run_task ?i ?w1) ! ?i) =
           (if ends (conn_rx (conns w a)) then Finished else Running)"
    using lp by (simp add: run_task_copy(3) [OF tk(1) r st] rt c1)
qed

lemma Plaintext_decrypt_task:
  assumes g: "fst (Plaintext ed b w) = Inr g"
    and s: "DecryptStream (fst (snd (initCipherStream ed))) = Some S"
    and op: "\<not> conn_closed (conns w b)"
  shows "concat (pipe_pending (pipes (run_task (Suc (length (tasks w)))
                                        (snd (snd (Plaintext ed b w))))
                                 (Reader (ReadWriter g)))) =
           fst (XORKeyStream S (consumed (conn_rx (conns w b))))"
    and "task_status (tasks (run_task (Suc (length (tasks w))) (snd (snd (Plaintext ed b w))))
                      ! Suc (length (tasks w))) =
           (if ends (conn_rx (conns w b)) then Finished else Running)"
proof -
  let ?w1 = "snd (snd (Plaintext ed b w))"
  let ?i = "Suc (length (tasks w))"
  let ?p = "Suc (npipes w)"
  have ok: "fst (initCipherStream ed) = None"
    using g Plaintext_ok_iff [of ed b w] by auto
  note gi = Plaintext_Inr [OF g]
  have gr: "Reader (ReadWriter g) = ?p" using gi by simp
  have p1: "pipes ?w1 ?p = \<lparr>pipe_pending = [], pipe_rclosed = False, pipe_wclosed = False\<rparr>"
    using gi by simp
  have c1: "conns ?w1 = conns w" by (rule Plaintext_conns)
  note tk = Plaintext_new_tasks_nth [OF ok, where w = w and c = b]
  have r: "task_status (tasks ?w1 ! ?i) = Running"
    and st: "task_stream (tasks ?w1 ! ?i) = Some S"
    and rt: "task_route (tasks ?w1 ! ?i) = ConnToPipe b ?p"
    by (simp_all add: tk(2) s)
  have o: "\<not> conn_closed (conns ?w1 b)" "\<not> pipe_rclosed (pipes ?w1 ?p)"
    "\<not> pipe_wclosed (pipes ?w1 ?p)"
    using op by (simp_all add: c1 p1)
  note lp = copy_loop_ConnToPipe [OF o, of "task_wrapper (tasks ?w1 ! ?i)" S]
  show "concat (pipe_pending (pipes (run_task ?i ?w1) (Reader (ReadWriter g)))) =
           fst (XORKeyStream S (consumed (conn_rx (conns w b))))"
    using lp by (simp add: run_task_copy(1) [OF tk(1) r st] rt gr p1 c1)
  show "task_status (tasks (run_task ?i ?w1) ! ?i) =
           (if ends (conn_rx (conns w b)) then Finished else Running)"
    using lp by (simp add: run_task_copy(3) [OF tk(1) r st] rt c1)
qed

text \<open>
  What the core never does: closing the write end of a pipe releases a reader that is
  blocked on it, with the end of input, and closing the read end makes every later read
  fail.
\<close>

lemma pipe_CloseWrite_unblocks:
  assumes "fst (pipe_Read p n w) = None"
  shows "fst (pipe_Read p n (pipe_CloseWrite p w)) = Some ([], Some EOF)"
  using assms
  by (simp add: pipe_Read_blocked_iff)
     (simp add: pipe_Read_def pipe_CloseWrite_def set_pipe_def log_def Let_def)

lemma pipe_CloseRead_unblocks:
  "fst (pipe_Read p n (pipe_CloseRead p w)) = Some ([], Some ErrClosedPipe)"
  by (simp add: pipe_Read_def pipe_CloseRead_def set_pipe_def log_def Let_def)

text \<open>
  The round trip in the other direction: what is written to the connection returned by
  the "to plaintext" transform is encrypted onto its real connection, and when those
  bytes are written, in whatever chunks, to the connection returned by the "to
  ciphertext" transform, its real connection receives the original bytes.
\<close>

lemma write_all_open:
  assumes "\<not> conn_closed (conns w (Conn g))"
    and "\<not> pipe_rclosed (pipes w (Writer (ReadWriter g)))"
    and "\<not> pipe_wclosed (pipes w (Writer (ReadWriter g)))"
  shows "conns (write_all g bs w) = conns w \<and> tasks (write_all g bs w) = tasks w \<and>
         pipes (write_all g bs w) =
           (pipes w)(Writer (ReadWriter g) :=
              (pipes w (Writer (ReadWriter g)))
                \<lparr>pipe_pending := pipe_pending (pipes w (Writer (ReadWriter g))) @ bs\<rparr>)"
  using assms
proof (induction bs arbitrary: w)
  case Nil
  show ?case by simp
next
  case (Cons b bs)
  let ?w1 = "snd (CipherConn_Write g b w)"
  note wr = CipherConn_Write_open [OF Cons.prems, of b]
  have o: "\<not> conn_closed (conns ?w1 (Conn g))"
    "\<not> pipe_rclosed (pipes ?w1 (Writer (ReadWriter g)))"
    "\<not> pipe_wclosed (pipes ?w1 (Writer (ReadWriter g)))"
    using Cons.prems by (simp_all add: wr)
  show ?case using Cons.IH [OF o] by (simp add: wr fun_eq_iff)
qed

lemma Ciphertext_new_tasks_first:
  assumes ok: "fst (initCipherStream ed) = None"
  shows "length (tasks w) < length (tasks (snd (snd (Ciphertext ed c w))))"
    and "tasks (snd (snd (Ciphertext ed c w))) ! length (tasks w) =
      \<lparr>task_stream = DecryptStream (fst (snd (initCipherStream ed))),
       task_route = PipeToConn (npipes w) c, task_wrapper = ByStreamReader,
       task_owner = \<lparr>ReadWriter = \<lparr>Reader = Suc (npipes w), Writer = npipes w\<rparr>, Conn = c\<rparr>,
       task_status = Running\<rparr>"
  by (simp_all add: Ciphertext_new_tasks [OF ok] nth_append)

lemma Plaintext_new_tasks_first:
  assumes ok: "fst (initCipherStream ed) = None"
  shows "length (tasks w) < length (tasks (snd (snd (Plaintext ed c w))))"
    and "tasks (snd (snd (Plaintext ed c w))) ! length (tasks w) =
      \<lparr>task_stream = EncryptStream (fst (snd (initCipherStream ed))),
       task_route = PipeToConn (npipes w) c, task_wrapper = ByStreamWriter,
       task_owner = \<lparr>ReadWriter = \<lparr>Reader = Suc (npipes w), Writer = npipes w\<rparr>, Conn = c\<rparr>,
       task_status = Running\<rparr>"
  by (simp_all add: Plaintext_new_tasks [OF ok] nth_append)

lemma written_task:
  fixes w1 :: "'st world"
  assumes c1: "conns w1 = conns w"
    and p1: "pipes w1 (npipes w) =
       \<lparr>pipe_pending = [], pipe_rclosed = False, pipe_wclosed = False\<rparr>"
    and l: "i < length (tasks w1)"
    and t: "tasks w1 ! i =
      \<lparr>task_stream = Some S, task_route = PipeToConn (npipes w) c, task_wrapper = wr,
       task_owner = g, task_status = Running\<rparr>"
    and g: "Conn g = c" "Writer (ReadWriter g) = npipes w"
    and op: "\<not> conn_closed (conns w c)"
  shows "conn_tx (conns (run_task i (write_all g bs w1)) c) =
           conn_tx (conns w c) @ fst (XORKeyStream S (concat bs))"
proof -
  let ?p = "npipes w"
  let ?w2 = "write_all g bs w1"
  have o1: "\<not> conn_closed (conns w1 (Conn g))"
    "\<not> pipe_rclosed (pipes w1 (Writer (ReadWriter g)))"
    "\<not> pipe_wclosed (pipes w1 (Writer (ReadWriter g)))"
    using op by (simp_all add: g c1 p1)
  note wa = write_all_open [OF o1, of bs]
  have c2: "conns ?w2 = conns w" using wa c1 by simp
  have t2: "tasks ?w2 = tasks w1" using wa by simp
  have p2: "pipes ?w2 ?p =
      \<lparr>pipe_pending = bs, pipe_rclosed = False, pipe_wclosed = False\<rparr>"
    using wa by (simp add: g p1)
  have i2: "i < length (tasks ?w2)" and r2: "task_status (tasks ?w2 ! i) = Running"
    and s2: "task_stream (tasks ?w2 ! i) = Some S"
    and rt: "task_route (tasks ?w2 ! i) = PipeToConn ?p c"
    using l by (simp_all add: t2 t)
  have o2: "\<not> conn_closed (conns ?w2 c)" "\<not> pipe_rclosed (pipes ?w2 ?p)"
    using op by (simp_all add: c2 p2)
  note lp = copy_loop_PipeToConn [OF o2, of "task_wrapper (tasks ?w2 ! i)" S]
  have nf: "\<not> fst (copy_loop (task_wrapper (tasks ?w2 ! i)) (task_route (tasks ?w2 ! i)) S ?w2)"
    using lp by (simp add: rt p2)
  show ?thesis
    using lp by (simp add: run_task_copy(2) [OF i2 r2 s2 nf] rt p2 c2)
qed

lemma Plaintext_encrypt_task:
  assumes g: "fst (Plaintext ed b w) = Inr g"
    and s: "EncryptStream (fst (snd (initCipherStream ed))) = Some S"
    and op: "\<not> conn_closed (conns w b)"
  shows "conn_tx (conns (run_task (length (tasks w))
                           (write_all g bs (snd (snd (Plaintext ed b w))))) b) =
           conn_tx (conns w b) @ fst (XORKeyStream S (concat bs))"
proof -
  have ok: "fst (initCipherStream ed) = None"
    using g Plaintext_ok_iff [of ed b w] by auto
  note gi = Plaintext_Inr [OF g]
  note tk = Plaintext_new_tasks_first [OF ok, where w = w and c = b]
  show ?thesis
    by (rule written_task [OF Plaintext_conns _ tk(1) _ _ _ op])
       (simp_all add: gi tk(2) s)
qed

lemma Ciphertext_decrypt_task:
  assumes g: "fst (Ciphertext ed a w) = Inr g"
    and s: "DecryptStream (fst (snd (initCipherStream ed))) = Some S"
    and op: "\<not> conn_closed (conns w a)"
  shows "conn_tx (conns (run_task (length (tasks w))
                           (write_all g bs (snd (snd (Ciphertext ed a w))))) a) =
           conn_tx (conns w a) @ fst (XORKeyStream S (concat bs))"
proof -
  have ok: "fst (initCipherStream ed) = None"
    using g Ciphertext_ok_iff [of ed a w] by auto
  note gi = Ciphertext_Inr [OF g]
  note tk = Ciphertext_new_tasks_first [OF ok, where w = w and c = a]
  show ?thesis
    by (rule written_task [OF Ciphertext_conns _ tk(1) _ _ _ op])
       (simp_all add: gi tk(2) s)
qed

lemma round_trip_through_writes:
  assumes B: "fst (Plaintext edB b wB) = Inr gB"
    and A: "fst (Ciphertext edA a wA) = Inr gA"
    and encB: "EncryptStream edB = None" "StreamEncrypter edB = Some (NewEncrypter m)"
      "EncryptKey edB = Some key" "EncryptIV edB = Some iv"
    and decA: "DecryptStream edA = None" "StreamDecrypter edA = Some (NewDecrypter m)"
      "DecryptKey edA = Some key" "DecryptIV edA = Some iv"
    and openA: "\<not> conn_closed (conns wA a)"
    and openB: "\<not> conn_closed (conns wB b)"
    and C: "conn_tx (conns wB b) @ concat ds =
       conn_tx (conns (run_task (length (tasks wB))
                         (write_all gB cs (snd (snd (Plaintext edB b wB))))) b)"
  shows "conn_tx (conns (run_task (length (tasks wA))
                           (write_all gA ds (snd (snd (Ciphertext edA a wA))))) a) =
           conn_tx (conns wA a) @ concat cs"
proof -
  have okA: "fst (initCipherStream edA) = None"
    using A Ciphertext_ok_iff [of edA a wA] by auto
  have okB: "fst (initCipherStream edB) = None"
    using B Plaintext_ok_iff [of edB b wB] by auto
  note sB = init_encrypt_stream [OF okB encB, unfolded NewEncrypter_def]
  note sA = init_decrypt_stream [OF okA decA, unfolded NewDecrypter_def]
  have "concat ds = fst (XORKeyStream (mode_Encrypter m (Block key) iv) (concat cs))"
    using C Plaintext_encrypt_task [OF B sB openB, of cs] by simp
  then show ?thesis
    using Ciphertext_decrypt_task [OF A sA openA, of ds] by (simp add: mode_round_trip)
qed

text \<open>
  The stream of counter mode, started by either constructor, combines its input with
  the keystream \<open>E key iv\<close>, \<open>E key (iv + 1)\<close>, ... by exclusive-or, for an input of
  any length.
\<close>

lemma xor_bytes_Cons: "xor_bytes (x # xs) (y # ys) = (x XOR y) # xor_bytes xs ys"
  by (simp add: xor_bytes_def)

lemma xor_bytes_Nil: "xor_bytes [] ys = []"
  by (simp add: xor_bytes_def)

lemma ctr_blocks_length:
  "\<forall>c. length (E key c) = 16 \<Longrightarrow> length (ctr_blocks E key ctr n) = 16 * n"
  by (induction n arbitrary: ctr) simp_all

lemma CTR_run:
  assumes len: "\<forall>c. length (E key c) = 16" and i: "i < 16"
  shows "fst (run_step (encrypt_step (CTR E)) (Block key, ctr, i) src) =
           xor_bytes src
             (take (length src)
                (drop i (ctr_blocks E key ctr (Suc ((i + length src) div 16)))))"
  using i
proof (induction src arbitrary: ctr i)
  case Nil
  show ?case by (simp add: xor_bytes_Nil)
next
  case (Cons x xs)
  define n where "n = length xs"
  define B where "B = ctr_blocks E key ctr (Suc ((i + length (x # xs)) div 16))"
  define R where "R = ctr_blocks E key (inc_counter ctr) ((i + length (x # xs)) div 16)"
  have lE: "length (E key ctr) = 16" using len by simp
  have B: "B = E key ctr @ R" by (simp add: B_def R_def)
  have dr: "drop i B = (E key ctr ! i) # drop (Suc i) B"
    using Cons.prems lE Cons_nth_drop_Suc [of i B] by (simp add: B nth_append)
  have st: "encrypt_step (CTR E) (Block key, ctr, i) x =
      (x XOR E key ctr ! i,
       if Suc i < 16 then (Block key, ctr, Suc i) else (Block key, inc_counter ctr, 0))"
    by (simp add: encrypt_step_def CTR_def Let_def)
  have tl: "fst (run_step (encrypt_step (CTR E))
                   (if Suc i < 16 then (Block key, ctr, Suc i)
                    else (Block key, inc_counter ctr, 0)) xs) =
      xor_bytes xs (take n (drop (Suc i) B))"
  proof (cases "Suc i < 16")
    case True
    have "fst (run_step (encrypt_step (CTR E)) (Block key, ctr, Suc i) xs) =
        xor_bytes xs (take (length xs)
          (drop (Suc i) (ctr_blocks E key ctr (Suc ((Suc i + length xs) div 16)))))"
      by (rule Cons.IH [OF True])
    then show ?thesis using True by (simp add: B_def n_def)
  next
    case False
    with Cons.prems have i15: "i = 15" by simp
    have d: "(i + length (x # xs)) div 16 = Suc (n div 16)" by (simp add: i15 n_def)
    have R: "R = ctr_blocks E key (inc_counter ctr) (Suc (n div 16))"
      unfolding R_def d ..
    have "drop (Suc i) B = R" using lE by (simp add: B i15)
    then have "drop (Suc i) B = ctr_blocks E key (inc_counter ctr) (Suc (n div 16))"
      by (simp only: R)
    moreover have "fst (run_step (encrypt_step (CTR E)) (Block key, inc_counter ctr, 0) xs) =
        xor_bytes xs (take (length xs)
          (drop 0 (ctr_blocks E key (inc_counter ctr) (Suc ((0 + length xs) div 16)))))"
      by (rule Cons.IH) simp
    ultimately show ?thesis using False by (simp add: n_def)
  qed
  have "fst (run_step (encrypt_step (CTR E)) (Block key, ctr, i) (x # xs)) =
      (x XOR E key ctr ! i) # xor_bytes xs (take n (drop (Suc i) B))"
    using tl by (simp add: run_step_Cons st del: run_step.simps(2))
  also have "\<dots> = xor_bytes (x # xs) (take (length (x # xs)) (drop i B))"
    by (subst dr) (simp add: xor_bytes_Cons n_def)
  finally show ?case by (simp only: B_def)
qed

lemma CTR_is_counter_mode:
  assumes "\<forall>c. length (E key c) = 16"
  shows "fst (XORKeyStream (mode_Encrypter (CTR E) (Block key) iv) src) =
           xor_bytes src (CTR_keystream E key iv (length src))"
    and "fst (XORKeyStream (mode_Decrypter (CTR E) (Block key) iv) src) =
           xor_bytes src (CTR_keystream E key iv (length src))"
proof -
  have e: "run_step (decrypt_step (CTR E)) s xs = run_step (encrypt_step (CTR E)) s xs"
    for s xs
    by (induction xs arbitrary: s)
       (auto simp: decrypt_step_def encrypt_step_def CTR_def Let_def split: prod.splits)
  have i: "mode_init (CTR E) (Block key) iv = (Block key, iv, 0)" by (simp add: CTR_def)
  show "fst (XORKeyStream (mode_Encrypter (CTR E) (Block key) iv) src) =
           xor_bytes src (CTR_keystream E key iv (length src))"
    using CTR_run [where E = E and key = key, OF assms, of 0 iv src]
    by (simp add: mode_Encrypter_def XORKeyStream_alt i CTR_keystream_def
          del: XORKeyStream.simps ctr_blocks.simps)
  show "fst (XORKeyStream (mode_Decrypter (CTR E) (Block key) iv) src) =
           xor_bytes src (CTR_keystream E key iv (length src))"
    using CTR_run [where E = E and key = key, OF assms, of 0 iv src]
    by (simp add: mode_Decrypter_def XORKeyStream_alt i CTR_keystream_def e
          del: XORKeyStream.simps ctr_blocks.simps)
qed

lemma complete_material_error:
  assumes "EncryptStream ed \<noteq> None \<or>
      (StreamEncrypter ed \<noteq> None \<and> EncryptKey ed \<noteq> None \<and> EncryptIV ed \<noteq> None)"
    and "DecryptStream ed \<noteq> None \<or>
      (StreamDecrypter ed \<noteq> None \<and> DecryptKey ed \<noteq> None \<and> DecryptIV ed \<noteq> None)"
    and "fst (initCipherStream ed) = Some e"
  shows "CipherConstructionError e"
proof -
  have enc: "fst (initEncrypt ed) = Some e \<Longrightarrow> CipherConstructionError e"
    using assms(1)
    by (auto simp: initEncrypt_def aes_NewCipher_def split: option.splits if_splits)
  have dec: "fst (initDecrypt ed') = Some e \<Longrightarrow> CipherConstructionError e"
    if "DecryptStream ed' \<noteq> None \<or>
      (StreamDecrypter ed' \<noteq> None \<and> DecryptKey ed' \<noteq> None \<and> DecryptIV ed' \<noteq> None)"
    for ed' :: "'a StreamEncryptDecrypter"
    using that
    by (auto simp: initDecrypt_def aes_NewCipher_def split: option.splits if_splits)
  show ?thesis
  proof (cases "fst (initEncrypt ed)")
    case (Some err)
    with initCipherStream_encrypt_error [OF Some] assms(3) enc show ?thesis by simp
  next
    case None
    let ?ed1 = "fst (snd (initEncrypt ed))"
    have "DecryptStream ?ed1 \<noteq> None \<or>
      (StreamDecrypter ?ed1 \<noteq> None \<and> DecryptKey ?ed1 \<noteq> None \<and> DecryptIV ?ed1 \<noteq> None)"
      using assms(2) initEncrypt_cfg_cases [of ed] by auto
    from dec [OF this] initCipherStream_encrypt_ok [OF None] assms(3)
    show ?thesis by simp
  qed
qed

lemma feed_world_open: "\<not> conn_closed (conns (feed_world rx) c)"
  by (simp add: feed_world_def idle_world_def)

lemma feed_world_rx: "conn_rx (conns (feed_world rx) 0) = rx"
  by (simp add: feed_world_def)

lemma xor_block_vector: "xor_block vector_key vector_iv = vector_key"
  by (simp add: xor_block_def vector_key_def vector_iv_def)

lemma CTR_encrypt_3:
  "fst (XORKeyStream (mode_Encrypter (CTR E) (Block key) iv) [a, b, c]) =
     [a XOR E key iv ! 0, b XOR E key iv ! 1, c XOR E key iv ! 2]"
  by (simp add: mode_Encrypter_def CTR_def encrypt_step_def numeral_2_eq_2)

lemma vector_key_nth: "vector_key ! 0 = 0" "vector_key ! Suc 0 = 1" "vector_key ! 2 = 2"
  by (simp_all add: vector_key_def)

lemma encrypt_sample:
  "fst (XORKeyStream (mode_Encrypter (CTR xor_block) (Block vector_key) vector_iv) [1, 2, 3]) =
     [1, 3, 1]"
  by (simp add: CTR_encrypt_3 xor_block_vector vector_key_nth)

text \<open>A closed connection never changes again, whatever the core does.\<close>

lemma frozen_source_Read:
  "conn_closed (conns w c) \<Longrightarrow> conns (snd (source_Read rt n w)) c = conns w c"
  by (cases rt)
     (auto simp: source_Read_def pipe_Read_def conn_Read_def Let_def log_def set_pipe_def
        set_conn_def split: list.splits)

lemma frozen_sink_Write:
  "conn_closed (conns w c) \<Longrightarrow> conns (snd (sink_Write rt b w)) c = conns w c"
  by (cases rt)
     (auto simp: sink_Write_def pipe_Write_def conn_Write_def Let_def log_def set_pipe_def
        set_conn_def)

lemma frozen_copy_step:
  assumes cl: "conn_closed (conns w c)"
  shows "conns (progress_world (copy_step wr rt S w)) c = conns w c"
proof -
  obtain r S1 w1 where rd: "task_Read wr rt S 32768 w = (r, S1, w1)"
    by (cases "task_Read wr rt S 32768 w") auto
  have q1: "conns w1 c = conns w c"
    using task_Read_world [of wr rt S 32768 w] frozen_source_Read [OF cl, of rt 32768] rd
    by simp
  show ?thesis
  proof (cases r)
    case None
    with rd q1 show ?thesis by (simp add: copy_step_def)
  next
    case (Some be)
    obtain b er where be: "be = (b, er)" by (cases be)
    obtain k S2 w2 where wt: "task_Write wr rt S1 b w1 = (k, S2, w2)"
      by (cases "task_Write wr rt S1 b w1") auto
    have cl1: "conn_closed (conns w1 c)" using cl q1 by simp
    have "conns w2 c = conns w1 c"
      using task_Write_world [of wr rt S1 b w1] wt frozen_sink_Write [OF cl1, of rt] by simp
    with q1 have q2: "conns w2 c = conns w c" by simp
    obtain nw ew where k: "k = (nw, ew)" by (cases k)
    show ?thesis using q1 q2
      by (simp add: copy_step_def rd Some be wt k)
  qed
qed

lemma frozen_copy_loop:
  "conn_closed (conns w c) \<Longrightarrow> conns (snd (snd (copy_loop wr rt S w))) c = conns w c"
proof (induction wr rt S w rule: copy_loop.induct)
  case (1 wr rt S w)
  note cl = "1.prems"
  show ?case
  proof (cases "copy_step wr rt S w")
    case (Blocked S1 w1)
    with frozen_copy_step [OF cl, of wr rt S] show ?thesis by (simp add: copy_loop_unfold)
  next
    case (Returned S1 w1)
    with frozen_copy_step [OF cl, of wr rt S] show ?thesis by (simp add: copy_loop_unfold)
  next
    case (Again S1 w1)
    have e: "conns w1 c = conns w c" using frozen_copy_step [OF cl, of wr rt S] Again by simp
    then have "conn_closed (conns w1 c)" using cl by simp
    then have "conns (snd (snd (copy_loop wr rt S1 w1))) c = conns w1 c"
      by (rule "1.IH" [OF Again])
    with e show ?thesis using Again by (simp add: copy_loop_unfold)
  qed
qed

lemma frozen_nil_copy_loop:
  "conn_closed (conns w c) \<Longrightarrow> conns (snd (nil_copy_loop wr rt w)) c = conns w c"
proof (induction wr rt w rule: nil_copy_loop.induct)
  case (1 wr rt w)
  note cl = "1.prems"
  obtain r w1 where st: "nil_copy_step wr rt w = (r, w1)"
    by (cases "nil_copy_step wr rt w")
  have e: "conns w1 c = conns w c"
    using frozen_source_Read [OF cl, of rt 32768] nil_copy_step_world [of wr rt w] st by simp
  show ?case
  proof (cases r)
    case None
    have "conn_closed (conns w1 c)" using cl e by simp
    then have "conns (snd (nil_copy_loop wr rt w1)) c = conns w1 c"
      using "1.IH" st None by simp
    with e show ?thesis using st None by (simp add: nil_copy_loop_unfold)
  next
    case (Some x)
    with e st show ?thesis by (simp add: nil_copy_loop_unfold)
  qed
qed

lemma frozen_CipherConn_Close:
  "conn_closed (conns w c) \<Longrightarrow> conns (snd (CipherConn_Close g w)) c = conns w c"
  by (auto simp: CipherConn_Close_def conn_Close_def Let_def log_def set_conn_def)

lemma frozen_CipherConn_Read:
  "conn_closed (conns w c) \<Longrightarrow> conns (snd (CipherConn_Read g n w)) c = conns w c"
  by (auto simp: CipherConn_Read_def conn_Read_def pipe_Read_def Let_def log_def set_conn_def
        set_pipe_def split: list.splits)

lemma frozen_CipherConn_Write:
  "conn_closed (conns w c) \<Longrightarrow> conns (snd (CipherConn_Write g b w)) c = conns w c"
  by (auto simp: CipherConn_Write_def conn_Write_def pipe_Write_def Let_def log_def
        set_conn_def set_pipe_def)

lemma frozen_run_task:
  assumes cl: "conn_closed (conns w c)"
  shows "conns (run_task i w) c = conns w c"
proof (cases "i < length (tasks w) \<and> task_status (tasks w ! i) = Running")
  case False
  then show ?thesis by (auto simp: run_task_def Let_def)
next
  case True
  let ?t = "tasks w ! i"
  show ?thesis
  proof (cases "task_stream ?t")
    case None
    obtain st w1 where l: "nil_copy_loop (task_wrapper ?t) (task_route ?t) w = (st, w1)"
      by (cases "nil_copy_loop (task_wrapper ?t) (task_route ?t) w")
    have e1: "conns w1 c = conns w c"
      using frozen_nil_copy_loop [OF cl, of "task_wrapper ?t" "task_route ?t"] l by simp
    obtain err w2 where k: "CipherConn_Close (task_owner ?t) w1 = (err, w2)"
      by (cases "CipherConn_Close (task_owner ?t) w1")
    have "conn_closed (conns w1 c)" using cl e1 by simp
    from frozen_CipherConn_Close [OF this, of "task_owner ?t"] k e1
    have e2: "conns w2 c = conns w c" by simp
    show ?thesis using True None l k e1 e2 by (simp add: run_task_def Let_def)
  next
    case (Some S)
    obtain fin S1 w1 where l: "copy_loop (task_wrapper ?t) (task_route ?t) S w = (fin, S1, w1)"
      by (cases "copy_loop (task_wrapper ?t) (task_route ?t) S w") auto
    have e1: "conns w1 c = conns w c"
      using frozen_copy_loop [OF cl, of "task_wrapper ?t" "task_route ?t" S] l by simp
    obtain err w2 where k: "CipherConn_Close (task_owner ?t) w1 = (err, w2)"
      by (cases "CipherConn_Close (task_owner ?t) w1")
    have "conn_closed (conns w1 c)" using cl e1 by simp
    from frozen_CipherConn_Close [OF this, of "task_owner ?t"] k e1
    have e2: "conns w2 c = conns w c" by simp
    show ?thesis using True Some l k e1 e2 by (cases fin) (simp_all add: run_task_def Let_def)
  qed
qed

lemma frozen_perform: "conn_closed (conns w c) \<Longrightarrow> conns (perform x w) c = conns w c"
  by (cases x)
     (simp_all add: Ciphertext_conns Plaintext_conns frozen_CipherConn_Read
        frozen_CipherConn_Write frozen_CipherConn_Close frozen_run_task)

lemma frozen_perform_all:
  "conn_closed (conns w c) \<Longrightarrow> conns (perform_all xs w) c = conns w c"
proof (induction xs arbitrary: w)
  case Nil
  show ?case by simp
next
  case (Cons x xs)
  have e: "conns (perform x w) c = conns w c" by (rule frozen_perform [OF Cons.prems])
  then have "conn_closed (conns (perform x w) c)" using Cons.prems by simp
  from Cons.IH [OF this] e show ?case by simp
qed

text \<open>What running a goroutine does to the list of goroutines.\<close>

lemma run_task_tasks:
  "tasks (run_task i w) = tasks w \<or>
   (i < length (tasks w) \<and> task_status (tasks w ! i) = Running \<and>
    (\<exists>st sm. tasks (run_task i w) =
               (tasks w)[i := (tasks w ! i)\<lparr>task_stream := sm, task_status := st\<rparr>] \<and>
             (sm = None \<longleftrightarrow> task_stream (tasks w ! i) = None) \<and>
             (sm \<noteq> None \<longrightarrow> st \<noteq> Panicked)))"
proof (cases "i < length (tasks w) \<and> task_status (tasks w ! i) = Running")
  case False
  then show ?thesis by (auto simp: run_task_def Let_def)
next
  case True
  let ?t = "tasks w ! i"
  show ?thesis
  proof (cases "task_stream ?t")
    case None
    obtain st w1 where l: "nil_copy_loop (task_wrapper ?t) (task_route ?t) w = (st, w1)"
      by (cases "nil_copy_loop (task_wrapper ?t) (task_route ?t) w")
    have t1: "tasks w1 = tasks w"
      using tasks_nil_copy_loop [of "task_wrapper ?t" "task_route ?t" w] l by simp
    obtain err w2 where k: "CipherConn_Close (task_owner ?t) w1 = (err, w2)"
      by (cases "CipherConn_Close (task_owner ?t) w1")
    have t2: "tasks w2 = tasks w"
      using CipherConn_Close_frame [of "task_owner ?t" w1] k t1 by simp
    have "?t\<lparr>task_stream := task_stream ?t, task_status := st\<rparr> = ?t\<lparr>task_status := st\<rparr>"
      by simp
    then have id: "?t\<lparr>task_stream := None, task_status := st\<rparr> = ?t\<lparr>task_status := st\<rparr>"
      by (simp only: None)
    have "tasks (run_task i w) = (tasks w)[i := ?t\<lparr>task_status := st\<rparr>]"
      using True None l k t1 t2 by (simp add: run_task_def Let_def)
    then have "tasks (run_task i w) =
        (tasks w)[i := ?t\<lparr>task_stream := None, task_status := st\<rparr>]"
      by (simp only: id)
    then have "\<exists>st sm. tasks (run_task i w) =
               (tasks w)[i := ?t\<lparr>task_stream := sm, task_status := st\<rparr>] \<and>
             (sm = None \<longleftrightarrow> task_stream ?t = None) \<and>
             (sm \<noteq> None \<longrightarrow> st \<noteq> Panicked)"
      using None by (intro exI [of _ st] exI [of _ None]) simp
    with True show ?thesis by simp
  next
    case (Some S)
    obtain fin S1 w1 where l: "copy_loop (task_wrapper ?t) (task_route ?t) S w = (fin, S1, w1)"
      by (cases "copy_loop (task_wrapper ?t) (task_route ?t) S w") auto
    have t1: "tasks w1 = tasks w"
      using tasks_copy_loop [of "task_wrapper ?t" "task_route ?t" S w] l by simp
    obtain err w2 where k: "CipherConn_Close (task_owner ?t) w1 = (err, w2)"
      by (cases "CipherConn_Close (task_owner ?t) w1")
    have t2: "tasks w2 = tasks w"
      using CipherConn_Close_frame [of "task_owner ?t" w1] k t1 by simp
    have "?t\<lparr>task_stream := Some S1, task_status := task_status ?t\<rparr> =
        ?t\<lparr>task_stream := Some S1\<rparr>"
      by simp
    then have id: "?t\<lparr>task_stream := Some S1, task_status := Running\<rparr> =
        ?t\<lparr>task_stream := Some S1\<rparr>"
      using True by simp
    have "tasks (run_task i w) =
        (tasks w)[i := ?t\<lparr>task_stream := Some S1,
                           task_status := (if fin then Finished else Running)\<rparr>]"
      using True Some l k t1 t2 by (cases fin) (simp_all add: run_task_def Let_def id)
    then have "\<exists>st sm. tasks (run_task i w) =
               (tasks w)[i := ?t\<lparr>task_stream := sm, task_status := st\<rparr>] \<and>
             (sm = None \<longleftrightarrow> task_stream ?t = None) \<and>
             (sm \<noteq> None \<longrightarrow> st \<noteq> Panicked)"
      using Some
      by (intro exI [of _ "if fin then Finished else Running"] exI [of _ "Some S1"]) simp
    with True show ?thesis by simp
  qed
qed

lemma run_task_other:
  "length (tasks (run_task i w)) = length (tasks w)"
  "j \<noteq> i \<Longrightarrow> tasks (run_task i w) ! j = tasks w ! j"
  using run_task_tasks [of i w] by auto

lemma tasks_CipherConn_Read: "tasks (snd (CipherConn_Read g n w)) = tasks w"
  by (auto simp: CipherConn_Read_def conn_Read_def pipe_Read_def Let_def log_def set_conn_def
        set_pipe_def split: list.splits)

lemma tasks_CipherConn_Write: "tasks (snd (CipherConn_Write g b w)) = tasks w"
  by (auto simp: CipherConn_Write_def conn_Write_def pipe_Write_def Let_def log_def
        set_conn_def set_pipe_def)

lemma Ciphertext_tasks:
  "tasks (snd (snd (Ciphertext ed c w))) = tasks w \<or>
   (\<exists>t1 t2. tasks (snd (snd (Ciphertext ed c w))) = tasks w @ [t1, t2] \<and>
            task_status t1 = Running \<and> task_status t2 = Running)"
proof (cases "fst (initCipherStream ed)")
  case None
  from Ciphertext_new_tasks [OF None, of c w] show ?thesis by simp
next
  case (Some e)
  from Ciphertext_error [OF Some, of c w] show ?thesis by simp
qed

lemma Plaintext_tasks:
  "tasks (snd (snd (Plaintext ed c w))) = tasks w \<or>
   (\<exists>t1 t2. tasks (snd (snd (Plaintext ed c w))) = tasks w @ [t1, t2] \<and>
            task_status t1 = Running \<and> task_status t2 = Running)"
proof (cases "fst (initCipherStream ed)")
  case None
  from Plaintext_new_tasks [OF None, of c w] show ?thesis by simp
next
  case (Some e)
  from Plaintext_error [OF Some, of c w] show ?thesis by simp
qed

lemma steady_perform:
  assumes "\<forall>t \<in> set (tasks w). task_stream t \<noteq> None \<longrightarrow> task_status t \<noteq> Panicked"
  shows "\<forall>t \<in> set (tasks (perform x w)). task_stream t \<noteq> None \<longrightarrow> task_status t \<noteq> Panicked"
proof (cases x)
  case (DoCiphertext ed c)
  with assms Ciphertext_tasks [of ed c w] show ?thesis by auto
next
  case (DoPlaintext ed c)
  with assms Plaintext_tasks [of ed c w] show ?thesis by auto
next
  case (DoRead g n)
  with assms show ?thesis by (simp add: tasks_CipherConn_Read)
next
  case (DoWrite g b)
  with assms show ?thesis by (simp add: tasks_CipherConn_Write)
next
  case (DoClose g)
  with assms CipherConn_Close_frame [of g w] show ?thesis by simp
next
  case (DoRun i)
  show ?thesis
  proof
    fix t assume t: "t \<in> set (tasks (perform x w))"
    from run_task_tasks [of i w]
    show "task_stream t \<noteq> None \<longrightarrow> task_status t \<noteq> Panicked"
    proof
      assume "tasks (run_task i w) = tasks w"
      with t assms DoRun show ?thesis by simp
    next
      assume "i < length (tasks w) \<and> task_status (tasks w ! i) = Running \<and>
        (\<exists>st sm. tasks (run_task i w) =
               (tasks w)[i := (tasks w ! i)\<lparr>task_stream := sm, task_status := st\<rparr>] \<and>
             (sm = None \<longleftrightarrow> task_stream (tasks w ! i) = None) \<and>
             (sm \<noteq> None \<longrightarrow> st \<noteq> Panicked))"
      then obtain st sm where u: "tasks (run_task i w) =
               (tasks w)[i := (tasks w ! i)\<lparr>task_stream := sm, task_status := st\<rparr>]"
        and p: "sm \<noteq> None \<longrightarrow> st \<noteq> Panicked" by blast
      from t DoRun u have "t \<in> set ((tasks w)[i := (tasks w ! i)\<lparr>task_stream := sm,
          task_status := st\<rparr>])" by simp
      then have "t = (tasks w ! i)\<lparr>task_stream := sm, task_status := st\<rparr> \<or> t \<in> set (tasks w)"
        using set_update_subset_insert [of "tasks w" i] by blast
      then show ?thesis using p assms by auto
    qed
  qed
qed

lemma steady_perform_all:
  "\<forall>t \<in> set (tasks w). task_stream t \<noteq> None \<longrightarrow> task_status t \<noteq> Panicked \<Longrightarrow>
   \<forall>t \<in> set (tasks (perform_all xs w)). task_stream t \<noteq> None \<longrightarrow> task_status t \<noteq> Panicked"
proof (induction xs arbitrary: w)
  case Nil
  then show ?case by simp
next
  case (Cons x xs)
  from Cons.IH [OF steady_perform [OF Cons.prems, of x]] show ?case by simp
qed

text \<open>A goroutine that finds the real connection closed: its \<open>io.Copy\<close> returns.\<close>

lemma copy_loop_closed_source:
  assumes "conn_closed (conns w c)"
  shows "fst (copy_loop wr (ConnToPipe c p) S w)"
    and "pipes (snd (snd (copy_loop wr (ConnToPipe c p) S w))) = pipes w"
proof -
  have "copy_step wr (ConnToPipe c p) S w = Returned S (log (ConnRead c 32768) w)"
    using assms
    by (cases wr)
       (simp_all add: copy_step_def task_Read_def StreamReader_Read_def source_Read_def
          conn_Read_def Let_def XORKeyStream_Nil)
  then have "copy_loop wr (ConnToPipe c p) S w = (True, S, log (ConnRead c 32768) w)"
    by (rule copy_loop_unfold(2))
  then show "fst (copy_loop wr (ConnToPipe c p) S w)"
    and "pipes (snd (snd (copy_loop wr (ConnToPipe c p) S w))) = pipes w"
    by (simp_all add: log_def)
qed

lemma copy_loop_closed_sink:
  assumes cl: "conn_closed (conns w c)" and o: "\<not> pipe_rclosed (pipes w p)"
    and pd: "pipe_pending (pipes w p) = b # rest" and b: "b \<noteq> []"
  shows "fst (copy_loop wr (PipeToConn p c) S w)"
proof -
  have "\<exists>S2 w2. copy_step wr (PipeToConn p c) S w = Returned S2 w2"
    using cl o pd b
    by (cases wr; cases "XORKeyStream S b"; cases "XORKeyStream S (take 32768 b)")
       (auto simp: copy_step_def task_Read_def task_Write_def StreamReader_Read_def
          StreamWriter_Write_def source_Read_def sink_Write_def pipe_Read_def conn_Write_def
          Let_def log_def set_conn_def set_pipe_def dest: arg_cong [where f = "\<lambda>x. length (fst x)"]
          simp: length_XORKeyStream)
  then obtain S2 w2 where "copy_step wr (PipeToConn p c) S w = Returned S2 w2" by blast
  from copy_loop_unfold(2) [OF this] show ?thesis by simp
qed

lemma copy_loop_eof_source:
  assumes "\<not> conn_closed (conns w c)" and "conn_rx (conns w c) = ([], Some e) # rest"
  shows "fst (copy_loop wr (ConnToPipe c p) S w)"
    and "pipes (snd (snd (copy_loop wr (ConnToPipe c p) S w))) = pipes w"
proof -
  have "copy_step wr (ConnToPipe c p) S w =
      Returned S (set_conn c ((conns w c)\<lparr>conn_rx := rest\<rparr>) (log (ConnRead c 32768) w))"
    using assms
    by (cases wr)
       (simp_all add: copy_step_def task_Read_def StreamReader_Read_def source_Read_def
          conn_Read_def Let_def XORKeyStream_Nil)
  then have "copy_loop wr (ConnToPipe c p) S w =
      (True, S, set_conn c ((conns w c)\<lparr>conn_rx := rest\<rparr>) (log (ConnRead c 32768) w))"
    by (rule copy_loop_unfold(2))
  then show "fst (copy_loop wr (ConnToPipe c p) S w)"
    and "pipes (snd (snd (copy_loop wr (ConnToPipe c p) S w))) = pipes w"
    by (simp_all add: log_def set_conn_def)
qed

lemma run_task_closed_source:
  assumes i: "i < length (tasks w)" and r: "task_status (tasks w ! i) = Running"
    and s: "task_stream (tasks w ! i) = Some S"
    and rt: "task_route (tasks w ! i) = ConnToPipe c p"
    and cl: "conn_closed (conns w c)"
  shows "task_status (tasks (run_task i w) ! i) = Finished"
    and "pipes (run_task i w) = pipes w"
  using copy_loop_closed_source [OF cl, of "task_wrapper (tasks w ! i)" p S]
  by (simp_all add: run_task_copy(1,3) [OF i r s] rt)

lemma run_task_eof_source:
  assumes i: "i < length (tasks w)" and r: "task_status (tasks w ! i) = Running"
    and s: "task_stream (tasks w ! i) = Some S"
    and rt: "task_route (tasks w ! i) = ConnToPipe c p"
    and op: "\<not> conn_closed (conns w c)" and rx: "conn_rx (conns w c) = ([], Some e) # rest"
  shows "task_status (tasks (run_task i w) ! i) = Finished"
    and "pipes (run_task i w) = pipes w"
  using copy_loop_eof_source [OF op rx, of "task_wrapper (tasks w ! i)" p S]
  by (simp_all add: run_task_copy(1,3) [OF i r s] rt)

lemma run_task_closed_sink:
  assumes i: "i < length (tasks w)" and r: "task_status (tasks w ! i) = Running"
    and s: "task_stream (tasks w ! i) = Some S"
    and rt: "task_route (tasks w ! i) = PipeToConn p c"
    and cl: "conn_closed (conns w c)" and o: "\<not> pipe_rclosed (pipes w p)"
    and pd: "pipe_pending (pipes w p) = b # rest" and b: "b \<noteq> []"
  shows "task_status (tasks (run_task i w) ! i) = Finished"
  using copy_loop_closed_sink [OF cl o pd b, of "task_wrapper (tasks w ! i)" S]
  by (simp add: run_task_copy(3) [OF i r s] rt)

text \<open>A goroutine with no stream panics once it has bytes to encrypt.\<close>

lemma run_task_nil_stream:
  assumes i: "i < length (tasks w)" and r: "task_status (tasks w ! i) = Running"
    and s: "task_stream (tasks w ! i) = None"
    and wr: "task_wrapper (tasks w ! i) = ByStreamWriter"
    and rt: "task_route (tasks w ! i) = ConnToPipe c p"
    and op: "\<not> conn_closed (conns w c)" and rx: "conn_rx (conns w c) = (b, e) # rest"
    and b: "b \<noteq> []"
  shows "task_status (tasks (run_task i w) ! i) = Panicked"
proof -
  let ?t = "tasks w ! i"
  have "\<exists>w1. nil_copy_step ByStreamWriter (ConnToPipe c p) w = (Some Panicked, w1)"
    using op rx b
    by (simp add: nil_copy_step_def source_Read_def conn_Read_def Let_def)
  then obtain w1 where "nil_copy_step ByStreamWriter (ConnToPipe c p) w = (Some Panicked, w1)"
    by blast
  from nil_copy_loop_unfold(1) [OF this]
  have l: "nil_copy_loop (task_wrapper ?t) (task_route ?t) w = (Panicked, w1)"
    by (simp add: wr rt)
  have "tasks w1 = tasks w"
    using tasks_nil_copy_loop [of "task_wrapper ?t" "task_route ?t" w] l by simp
  with i r s l show ?thesis by (simp add: run_task_def Let_def)
qed

text \<open>The sample session before and after the caller's \<open>Close\<close>.\<close>

lemma written_session_facts:
  "tasks written_session =
     [\<lparr>task_stream = Some (mode_Decrypter (CTR xor_block) (Block vector_key) vector_iv),
       task_route = PipeToConn 0 0, task_wrapper = ByStreamReader,
       task_owner = session_conn, task_status = Running\<rparr>,
      \<lparr>task_stream = Some (mode_Encrypter (CTR xor_block) (Block vector_key) vector_iv),
       task_route = ConnToPipe 0 1, task_wrapper = ByStreamWriter,
       task_owner = session_conn, task_status = Running\<rparr>]"
  "pipes written_session 0 =
     \<lparr>pipe_pending = [[1, 2, 3]], pipe_rclosed = False, pipe_wclosed = False\<rparr>"
  "conns written_session 0 =
     \<lparr>conn_closed = False, conn_rx = [([], Some EOF)], conn_tx = []\<rparr>"
proof -
  let ?ed = "vector_config xor_block"
  let ?wf = "feed_world [([], Some EOF)]"
  have ok: "fst (initCipherStream ?ed) = None" by (simp add: initCipherStream_vector_config)
  have np: "npipes ?wf = 0" "tasks ?wf = []"
    by (simp_all add: feed_world_def idle_world_def)
  have gf: "fst (Ciphertext ?ed 0 ?wf) = Inr session_conn"
    using Ciphertext_ok_iff [of ?ed 0 ?wf] ok Ciphertext_Inr [of ?ed 0 ?wf] np
    by (auto simp: session_conn_def)
  have t: "tasks eof_session =
     [\<lparr>task_stream = Some (mode_Decrypter (CTR xor_block) (Block vector_key) vector_iv),
       task_route = PipeToConn 0 0, task_wrapper = ByStreamReader,
       task_owner = session_conn, task_status = Running\<rparr>,
      \<lparr>task_stream = Some (mode_Encrypter (CTR xor_block) (Block vector_key) vector_iv),
       task_route = ConnToPipe 0 1, task_wrapper = ByStreamWriter,
       task_owner = session_conn, task_status = Running\<rparr>]"
    unfolding eof_session_def
    by (simp add: Ciphertext_new_tasks [OF ok] np initCipherStream_vector_config
          session_conn_def)
  have c: "conns eof_session = conns ?wf"
    unfolding eof_session_def by (rule Ciphertext_conns)
  have p: "pipes eof_session 0 =
      \<lparr>pipe_pending = [], pipe_rclosed = False, pipe_wclosed = False\<rparr>"
    unfolding eof_session_def using Ciphertext_Inr [OF gf] by (simp add: np)
  have o: "\<not> conn_closed (conns eof_session (Conn session_conn))"
    "\<not> pipe_rclosed (pipes eof_session (Writer (ReadWriter session_conn)))"
    "\<not> pipe_wclosed (pipes eof_session (Writer (ReadWriter session_conn)))"
    by (simp_all add: c feed_world_open session_conn_def p)
  note wr = CipherConn_Write_open [OF o, of "[1, 2, 3]"]
  show "tasks written_session =
     [\<lparr>task_stream = Some (mode_Decrypter (CTR xor_block) (Block vector_key) vector_iv),
       task_route = PipeToConn 0 0, task_wrapper = ByStreamReader,
       task_owner = session_conn, task_status = Running\<rparr>,
      \<lparr>task_stream = Some (mode_Encrypter (CTR xor_block) (Block vector_key) vector_iv),
       task_route = ConnToPipe 0 1, task_wrapper = ByStreamWriter,
       task_owner = session_conn, task_status = Running\<rparr>]"
    unfolding written_session_def by (simp add: wr(3) t)
  show "pipes written_session 0 =
     \<lparr>pipe_pending = [[1, 2, 3]], pipe_rclosed = False, pipe_wclosed = False\<rparr>"
    unfolding written_session_def wr(4) by (simp add: session_conn_def p)
  show "conns written_session 0 =
     \<lparr>conn_closed = False, conn_rx = [([], Some EOF)], conn_tx = []\<rparr>"
    unfolding written_session_def by (simp add: wr(2) c feed_world_def)
qed

lemma closed_session_facts:
  "tasks closed_session = tasks written_session"
  "pipes closed_session = pipes written_session"
  "conn_closed (conns closed_session 0)"
  using CipherConn_Close_frame [of session_conn written_session]
  by (simp_all add: closed_session_def session_conn_def)

lemma written_session_goroutines:
  "task_status (tasks (run_task 1 written_session) ! 1) = Finished"
  "conn_closed (conns (run_task 1 written_session) 0)"
  "task_status (tasks (run_task 0 (run_task 1 written_session)) ! 0) = Finished"
  "task_status (tasks (run_task 0 (run_task 1 written_session)) ! 1) = Finished"
proof -
  let ?w = written_session
  note f = written_session_facts
  have i1: "1 < length (tasks ?w)" and r1: "task_status (tasks ?w ! 1) = Running"
    and s1: "task_stream (tasks ?w ! 1) =
        Some (mode_Encrypter (CTR xor_block) (Block vector_key) vector_iv)"
    and rt1: "task_route (tasks ?w ! 1) = ConnToPipe 0 1"
    and ow1: "task_owner (tasks ?w ! 1) = session_conn"
    by (simp_all add: f(1))
  have op: "\<not> conn_closed (conns ?w 0)" and rx: "conn_rx (conns ?w 0) = ([], Some EOF) # []"
    by (simp_all add: f(3))
  note e = run_task_eof_source [OF i1 r1 s1 rt1 op rx]
  show a: "task_status (tasks (run_task 1 ?w) ! 1) = Finished" by (rule e(1))
  show b: "conn_closed (conns (run_task 1 ?w) 0)"
    using run_task_finished [OF i1 r1 a] ow1 by (simp add: session_conn_def)
  let ?v = "run_task 1 ?w"
  have t0: "tasks ?v ! 0 = tasks ?w ! 0" by (rule run_task_other(2)) simp
  have i0: "0 < length (tasks ?v)" by (simp add: run_task_other(1) f(1))
  have r0: "task_status (tasks ?v ! 0) = Running"
    and s0: "task_stream (tasks ?v ! 0) =
        Some (mode_Decrypter (CTR xor_block) (Block vector_key) vector_iv)"
    and rt0: "task_route (tasks ?v ! 0) = PipeToConn 0 0"
    using t0 by (simp_all add: f(1))
  have o: "\<not> pipe_rclosed (pipes ?v 0)" and pd: "pipe_pending (pipes ?v 0) = [1, 2, 3] # []"
    unfolding e(2) by (simp_all add: f(2))
  show "task_status (tasks (run_task 0 ?v) ! 0) = Finished"
    by (rule run_task_closed_sink [OF i0 r0 s0 rt0 b o pd]) simp
  have "tasks (run_task 0 ?v) ! 1 = tasks ?v ! 1" by (rule run_task_other(2)) simp
  with a show "task_status (tasks (run_task 0 ?v) ! 1) = Finished" by simp
qed

lemma closed_session_goroutines:
  "task_status (tasks (run_task 1 (run_task 0 closed_session)) ! 0) = Finished"
  "task_status (tasks (run_task 1 (run_task 0 closed_session)) ! 1) = Finished"
  "task_status (tasks (run_task 0 (run_task 1 closed_session)) ! 0) = Finished"
  "task_status (tasks (run_task 0 (run_task 1 closed_session)) ! 1) = Finished"
proof -
  let ?w = closed_session
  note f = written_session_facts
  note k = closed_session_facts
  have i0: "0 < length (tasks ?w)" and r0: "task_status (tasks ?w ! 0) = Running"
    and s0: "task_stream (tasks ?w ! 0) =
        Some (mode_Decrypter (CTR xor_block) (Block vector_key) vector_iv)"
    and rt0: "task_route (tasks ?w ! 0) = PipeToConn 0 0"
    and i1: "1 < length (tasks ?w)" and r1: "task_status (tasks ?w ! 1) = Running"
    and s1: "task_stream (tasks ?w ! 1) =
        Some (mode_Encrypter (CTR xor_block) (Block vector_key) vector_iv)"
    and rt1: "task_route (tasks ?w ! 1) = ConnToPipe 0 1"
    by (simp_all add: k(1) f(1))
  have o: "\<not> pipe_rclosed (pipes ?w 0)" and pd: "pipe_pending (pipes ?w 0) = [1, 2, 3] # []"
    by (simp_all add: k(2) f(2))
  note cl = k(3)
  let ?a = "run_task 0 ?w"
  have a0: "task_status (tasks ?a ! 0) = Finished"
    by (rule run_task_closed_sink [OF i0 r0 s0 rt0 cl o pd]) simp
  have ca: "conn_closed (conns ?a 0)" using frozen_run_task [OF cl, of 0] cl by simp
  have ta: "tasks ?a ! 1 = tasks ?w ! 1" by (rule run_task_other(2)) simp
  have ia: "1 < length (tasks ?a)" using i1 by (simp add: run_task_other(1))
  have ra: "task_status (tasks ?a ! 1) = Running"
    and sa: "task_stream (tasks ?a ! 1) =
        Some (mode_Encrypter (CTR xor_block) (Block vector_key) vector_iv)"
    and rta: "task_route (tasks ?a ! 1) = ConnToPipe 0 1"
    using ta r1 s1 rt1 by simp_all
  show "task_status (tasks (run_task 1 ?a) ! 1) = Finished"
    by (rule run_task_closed_source(1) [OF ia ra sa rta ca])
  have "tasks (run_task 1 ?a) ! 0 = tasks ?a ! 0" by (rule run_task_other(2)) simp
  with a0 show "task_status (tasks (run_task 1 ?a) ! 0) = Finished" by simp
  let ?b = "run_task 1 ?w"
  note e = run_task_closed_source [OF i1 r1 s1 rt1 cl]
  have cb: "conn_closed (conns ?b 0)" using frozen_run_task [OF cl, of 1] cl by simp
  have tb: "tasks ?b ! 0 = tasks ?w ! 0" by (rule run_task_other(2)) simp
  have ib: "0 < length (tasks ?b)" using i0 by (simp add: run_task_other(1))
  have rb: "task_status (tasks ?b ! 0) = Running"
    and sb: "task_stream (tasks ?b ! 0) =
        Some (mode_Decrypter (CTR xor_block) (Block vector_key) vector_iv)"
    and rtb: "task_route (tasks ?b ! 0) = PipeToConn 0 0"
    using tb r0 s0 rt0 by simp_all
  have ob: "\<not> pipe_rclosed (pipes ?b 0)" and pb: "pipe_pending (pipes ?b 0) = [1, 2, 3] # []"
    unfolding e(2) using o pd by simp_all
  show "task_status (tasks (run_task 0 ?b) ! 0) = Finished"
    by (rule run_task_closed_sink [OF ib rb sb rtb cb ob pb]) simp
  have "tasks (run_task 0 ?b) ! 1 = tasks ?b ! 1" by (rule run_task_other(2)) simp
  with e(1) show "task_status (tasks (run_task 0 ?b) ! 1) = Finished" by simp
qed

section \<open>The claims about the builder\<close>

text \<open>
  C3, as the code has it. The builder asks for values that are set, not for values that
  are non-empty: for a direction with no ready stream, a \<open>nil\<close> constructor or a \<open>nil\<close>
  key fails with the error "at least one of ... must be set" of that direction, and
  otherwise a \<open>nil\<close> IV fails with "... IV must be set". For the decrypt direction this
  is so once the encrypt block has gone through. Nothing is called before an encrypt-side
  failure and nothing of the decrypt direction before a decrypt-side one, the
  configuration error leaves a transform with the store as it was (no connection or pipe
  touched, no goroutine started), and in particular a configuration with no encrypt
  stream, no encrypt key and no constructor fails with a configuration error. When each
  direction has a ready stream or all three values set, whatever their lengths, the only
  error the builder can return is the key size error of the block cipher.
\<close>

theorem missing_material_configuration_error:
  "(EncryptStream ed = None \<and> (StreamEncrypter ed = None \<or> EncryptKey ed = None) \<longrightarrow>
      initCipherStream ed =
        (Some (ErrorString
           ''at least one of EncryptStream OR EncryptKey and StreamEncrypter must be set''),
         ed, [])) \<and>
   (EncryptStream ed = None \<and> StreamEncrypter ed \<noteq> None \<and> EncryptKey ed \<noteq> None \<and>
    EncryptIV ed = None \<longrightarrow>
      initCipherStream ed = (Some (ErrorString ''encrypt IV must be set''), ed, [])) \<and>
   (fst (initEncrypt ed) = None \<and> DecryptStream ed = None \<and>
    (StreamDecrypter ed = None \<or> DecryptKey ed = None) \<longrightarrow>
      fst (initCipherStream ed) =
        Some (ErrorString
           ''at least one of DecryptStream OR DecryptKey and StreamDecrypter must be set'') \<and>
      (\<forall>c \<in> set (snd (snd (initCipherStream ed))). call_direction c = Encrypt)) \<and>
   (fst (initEncrypt ed) = None \<and> DecryptStream ed = None \<and> StreamDecrypter ed \<noteq> None \<and>
    DecryptKey ed \<noteq> None \<and> DecryptIV ed = None \<longrightarrow>
      fst (initCipherStream ed) = Some (ErrorString ''decrypt IV must be set'') \<and>
      (\<forall>c \<in> set (snd (snd (initCipherStream ed))). call_direction c = Encrypt)) \<and>
   (\<forall>e. fst (initCipherStream ed) = Some e \<and> ConfigurationError e \<longrightarrow>
      Ciphertext ed c w = (Inl e, fst (snd (initCipherStream ed)), w) \<and>
      Plaintext ed c w = (Inl e, fst (snd (initCipherStream ed)), w)) \<and>
   (\<forall>e. (EncryptStream ed \<noteq> None \<or>
         (StreamEncrypter ed \<noteq> None \<and> EncryptKey ed \<noteq> None \<and> EncryptIV ed \<noteq> None)) \<and>
        (DecryptStream ed \<noteq> None \<or>
         (StreamDecrypter ed \<noteq> None \<and> DecryptKey ed \<noteq> None \<and> DecryptIV ed \<noteq> None)) \<and>
        fst (initCipherStream ed) = Some e \<longrightarrow>
      CipherConstructionError e \<and> \<not> ConfigurationError e)"
proof (intro conjI impI allI)
  assume "EncryptStream ed = None \<and> (StreamEncrypter ed = None \<or> EncryptKey ed = None)"
  then show "initCipherStream ed =
        (Some (ErrorString
           ''at least one of EncryptStream OR EncryptKey and StreamEncrypter must be set''),
         ed, [])"
    by (auto simp: initCipherStream_def initEncrypt_def split: option.splits)
next
  assume "EncryptStream ed = None \<and> StreamEncrypter ed \<noteq> None \<and> EncryptKey ed \<noteq> None \<and>
    EncryptIV ed = None"
  then show "initCipherStream ed = (Some (ErrorString ''encrypt IV must be set''), ed, [])"
    by (auto simp: initCipherStream_def initEncrypt_def split: option.splits)
next
  assume a: "fst (initEncrypt ed) = None \<and> DecryptStream ed = None \<and>
    (StreamDecrypter ed = None \<or> DecryptKey ed = None)"
  then show "fst (initCipherStream ed) =
        Some (ErrorString
           ''at least one of DecryptStream OR DecryptKey and StreamDecrypter must be set'')"
    by (auto simp: init_defs split: option.splits sum.splits)
  from a show "\<forall>c \<in> set (snd (snd (initCipherStream ed))). call_direction c = Encrypt"
    by (auto simp: init_defs split: option.splits sum.splits)
next
  assume a: "fst (initEncrypt ed) = None \<and> DecryptStream ed = None \<and> StreamDecrypter ed \<noteq> None \<and>
    DecryptKey ed \<noteq> None \<and> DecryptIV ed = None"
  then show "fst (initCipherStream ed) = Some (ErrorString ''decrypt IV must be set'')"
    by (auto simp: init_defs split: option.splits sum.splits)
  from a show "\<forall>c \<in> set (snd (snd (initCipherStream ed))). call_direction c = Encrypt"
    by (auto simp: init_defs split: option.splits sum.splits)
next
  fix e assume "fst (initCipherStream ed) = Some e \<and> ConfigurationError e"
  then have e: "fst (initCipherStream ed) = Some e" by simp
  show "Ciphertext ed c w = (Inl e, fst (snd (initCipherStream ed)), w)"
    by (rule Ciphertext_error [OF e])
  show "Plaintext ed c w = (Inl e, fst (snd (initCipherStream ed)), w)"
    by (rule Plaintext_error [OF e])
next
  fix e
  assume a: "(EncryptStream ed \<noteq> None \<or>
         (StreamEncrypter ed \<noteq> None \<and> EncryptKey ed \<noteq> None \<and> EncryptIV ed \<noteq> None)) \<and>
        (DecryptStream ed \<noteq> None \<or>
         (StreamDecrypter ed \<noteq> None \<and> DecryptKey ed \<noteq> None \<and> DecryptIV ed \<noteq> None)) \<and>
        fst (initCipherStream ed) = Some e"
  then show c: "CipherConstructionError e" using complete_material_error [of ed e] by blast
  then show "\<not> ConfigurationError e" by (cases e) simp_all
qed

text \<open>
  C3 as stated fails. With an empty key that is not \<open>nil\<close> the guard of line 34 passes
  and \<open>aes.NewCipher\<close> answers with \<open>KeySizeError(0)\<close>, which is not a configuration
  error. With an empty IV that is not \<open>nil\<close> the guard of line 38 passes as well: the
  builder goes on to \<open>aes.NewCipher\<close> and calls the constructor with that IV, and what
  comes of it is the constructor's doing, not a configuration error of the builder.
\<close>

theorem empty_key_not_configuration_error:
  "EncryptStream ((vector_config xor_block)\<lparr>EncryptKey := Some []\<rparr>) = None \<and>
   EncryptKey ((vector_config xor_block)\<lparr>EncryptKey := Some []\<rparr>) = Some [] \<and>
   fst (initCipherStream ((vector_config xor_block)\<lparr>EncryptKey := Some []\<rparr>))
     = Some (KeySizeError 0) \<and>
   \<not> ConfigurationError (KeySizeError 0) \<and>
   EncryptStream ((vector_config xor_block)\<lparr>EncryptIV := Some []\<rparr>) = None \<and>
   EncryptIV ((vector_config xor_block)\<lparr>EncryptIV := Some []\<rparr>) = Some [] \<and>
   take 2 (snd (snd (initCipherStream ((vector_config xor_block)\<lparr>EncryptIV := Some []\<rparr>)))) =
     [NewCipher Encrypt vector_key, Constructor Encrypt (Block vector_key) []]"
  by (simp add: init_defs vector_config_def aes_NewCipher_vector_key NewEncrypter_def
        NewDecrypter_def)
     (simp add: aes_NewCipher_def)

theorem missing_material_configuration_error_witness:
  "initCipherStream ((vector_config xor_block)\<lparr>EncryptKey := None, StreamEncrypter := None\<rparr>) =
     (Some (ErrorString
        ''at least one of EncryptStream OR EncryptKey and StreamEncrypter must be set''),
      (vector_config xor_block)\<lparr>EncryptKey := None, StreamEncrypter := None\<rparr>, []) \<and>
   initCipherStream ((vector_config xor_block)\<lparr>EncryptIV := None\<rparr>) =
     (Some (ErrorString ''encrypt IV must be set''),
      (vector_config xor_block)\<lparr>EncryptIV := None\<rparr>, []) \<and>
   fst (initCipherStream ((vector_config xor_block)\<lparr>DecryptKey := None\<rparr>)) =
     Some (ErrorString
        ''at least one of DecryptStream OR DecryptKey and StreamDecrypter must be set'') \<and>
   fst (initCipherStream ((vector_config xor_block)\<lparr>DecryptIV := None\<rparr>)) =
     Some (ErrorString ''decrypt IV must be set'') \<and>
   fst (Ciphertext ((vector_config xor_block)\<lparr>EncryptKey := None, StreamEncrypter := None\<rparr>)
          0 idle_world) =
     Inl (ErrorString
        ''at least one of EncryptStream OR EncryptKey and StreamEncrypter must be set'') \<and>
   snd (snd (Ciphertext
          ((vector_config xor_block)\<lparr>EncryptKey := None, StreamEncrypter := None\<rparr>)
          0 idle_world)) = idle_world \<and>
   fst (initCipherStream ((vector_config xor_block)\<lparr>EncryptKey := Some []\<rparr>)) =
     Some (KeySizeError 0) \<and>
   CipherConstructionError (KeySizeError 0)"
proof -
  let ?ed1 = "(vector_config xor_block)\<lparr>EncryptKey := None, StreamEncrypter := None\<rparr>"
  have enc_ok: "fst (initEncrypt ((vector_config xor_block)\<lparr>DecryptKey := None\<rparr>)) = None"
    "fst (initEncrypt ((vector_config xor_block)\<lparr>DecryptIV := None\<rparr>)) = None"
    by (simp_all add: initEncrypt_def vector_config_def aes_NewCipher_vector_key)
  have a: "initCipherStream ?ed1 =
     (Some (ErrorString
        ''at least one of EncryptStream OR EncryptKey and StreamEncrypter must be set''),
      ?ed1, [])"
    using missing_material_configuration_error [of ?ed1 0 idle_world] by (simp add: vector_config_def)
  have b: "Ciphertext ?ed1 0 idle_world =
     (Inl (ErrorString
        ''at least one of EncryptStream OR EncryptKey and StreamEncrypter must be set''),
      ?ed1, idle_world)"
    using missing_material_configuration_error [of ?ed1 0 idle_world] by (simp add: a)
  have c: "initCipherStream ((vector_config xor_block)\<lparr>EncryptIV := None\<rparr>) =
     (Some (ErrorString ''encrypt IV must be set''),
      (vector_config xor_block)\<lparr>EncryptIV := None\<rparr>, [])"
    using missing_material_configuration_error [of "(vector_config xor_block)\<lparr>EncryptIV := None\<rparr>" 0 idle_world]
    by (simp add: vector_config_def)
  have d: "fst (initCipherStream ((vector_config xor_block)\<lparr>DecryptKey := None\<rparr>)) =
     Some (ErrorString
        ''at least one of DecryptStream OR DecryptKey and StreamDecrypter must be set'')"
    using missing_material_configuration_error [of "(vector_config xor_block)\<lparr>DecryptKey := None\<rparr>" 0 idle_world] enc_ok
    by (simp add: vector_config_def)
  have e: "fst (initCipherStream ((vector_config xor_block)\<lparr>DecryptIV := None\<rparr>)) =
     Some (ErrorString ''decrypt IV must be set'')"
    using missing_material_configuration_error [of "(vector_config xor_block)\<lparr>DecryptIV := None\<rparr>" 0 idle_world] enc_ok
    by (simp add: vector_config_def)
  have f: "CipherConstructionError (KeySizeError 0)"
    using missing_material_configuration_error
        [of "(vector_config xor_block)\<lparr>EncryptKey := Some []\<rparr>" 0 idle_world]
    by (simp add: init_defs vector_config_def aes_NewCipher_def)
  have g: "fst (initCipherStream ((vector_config xor_block)\<lparr>EncryptKey := Some []\<rparr>)) =
     Some (KeySizeError 0)"
    by (simp add: init_defs vector_config_def aes_NewCipher_def)
  show ?thesis using a b c d e f g by simp
qed

text \<open>
  C4. Whenever the builder hands a key to \<open>aes.NewCipher\<close> and the block cipher rejects
  it, the builder returns that error, a \<open>KeySizeError\<close> carrying the length of the key,
  and both transforms return it at once: no connection is returned and the store is as
  it was, so no pipe was made and no goroutine started. The key of a direction reaches
  \<open>aes.NewCipher\<close> when that direction has no ready stream and its constructor, key and
  IV are set (for the decrypt direction, once the encrypt block has gone through), and
  the block cipher rejects every length other than 16, 24 and 32.
\<close>

theorem rejected_key_construction_error:
  "(NewCipher d key \<in> set (snd (snd (initCipherStream ed))) \<and> aes_NewCipher key = Inl e \<longrightarrow>
      fst (initCipherStream ed) = Some e \<and> e = KeySizeError (int (length key)) \<and>
      CipherConstructionError e \<and>
      Ciphertext ed c w = (Inl e, fst (snd (initCipherStream ed)), w) \<and>
      Plaintext ed c w = (Inl e, fst (snd (initCipherStream ed)), w)) \<and>
   (EncryptStream ed = None \<and> StreamEncrypter ed \<noteq> None \<and> EncryptKey ed = Some key \<and>
    EncryptIV ed \<noteq> None \<longrightarrow>
      NewCipher Encrypt key \<in> set (snd (snd (initCipherStream ed)))) \<and>
   (fst (initEncrypt ed) = None \<and> DecryptStream ed = None \<and> StreamDecrypter ed \<noteq> None \<and>
    DecryptKey ed = Some key \<and> DecryptIV ed \<noteq> None \<longrightarrow>
      NewCipher Decrypt key \<in> set (snd (snd (initCipherStream ed)))) \<and>
   (length key \<noteq> 16 \<and> length key \<noteq> 24 \<and> length key \<noteq> 32 \<longrightarrow>
      aes_NewCipher key = Inl (KeySizeError (int (length key))))"
proof (intro conjI impI)
  assume a: "NewCipher d key \<in> set (snd (snd (initCipherStream ed))) \<and> aes_NewCipher key = Inl e"
  then have f: "fst (initCipherStream ed) = Some e"
    using initCipherStream_rejected by blast
  from a have k: "e = KeySizeError (int (length key))" using aes_NewCipher_Inl by blast
  show "fst (initCipherStream ed) = Some e" by (rule f)
  show "e = KeySizeError (int (length key))" by (rule k)
  show "CipherConstructionError e" by (simp add: k)
  show "Ciphertext ed c w = (Inl e, fst (snd (initCipherStream ed)), w)"
    by (rule Ciphertext_error [OF f])
  show "Plaintext ed c w = (Inl e, fst (snd (initCipherStream ed)), w)"
    by (rule Plaintext_error [OF f])
next
  assume "EncryptStream ed = None \<and> StreamEncrypter ed \<noteq> None \<and> EncryptKey ed = Some key \<and>
    EncryptIV ed \<noteq> None"
  then show "NewCipher Encrypt key \<in> set (snd (snd (initCipherStream ed)))"
    by (auto simp: init_defs split: option.splits sum.splits prod.splits)
next
  assume "fst (initEncrypt ed) = None \<and> DecryptStream ed = None \<and> StreamDecrypter ed \<noteq> None \<and>
    DecryptKey ed = Some key \<and> DecryptIV ed \<noteq> None"
  then show "NewCipher Decrypt key \<in> set (snd (snd (initCipherStream ed)))"
    by (auto simp: init_defs split: option.splits sum.splits prod.splits)
next
  assume "length key \<noteq> 16 \<and> length key \<noteq> 24 \<and> length key \<noteq> 32"
  then show "aes_NewCipher key = Inl (KeySizeError (int (length key)))"
    by (simp add: aes_NewCipher_def)
qed

theorem rejected_key_construction_error_witness:
  "NewCipher Encrypt [1, 2, 3, 4, 5] \<in>
     set (snd (snd (initCipherStream
       ((vector_config xor_block)\<lparr>EncryptKey := Some [1, 2, 3, 4, 5]\<rparr>)))) \<and>
   aes_NewCipher [1, 2, 3, 4, 5] = Inl (KeySizeError 5) \<and>
   fst (Ciphertext ((vector_config xor_block)\<lparr>EncryptKey := Some [1, 2, 3, 4, 5]\<rparr>)
         0 idle_world) = Inl (KeySizeError 5) \<and>
   snd (snd (Ciphertext ((vector_config xor_block)\<lparr>EncryptKey := Some [1, 2, 3, 4, 5]\<rparr>)
         0 idle_world)) = idle_world \<and>
   fst (Plaintext ((vector_config xor_block)\<lparr>DecryptKey := Some [1, 2, 3, 4, 5]\<rparr>)
         0 idle_world) = Inl (KeySizeError 5) \<and>
   snd (snd (Plaintext ((vector_config xor_block)\<lparr>DecryptKey := Some [1, 2, 3, 4, 5]\<rparr>)
         0 idle_world)) = idle_world"
proof -
  have r: "aes_NewCipher [1, 2, 3, 4, 5] = Inl (KeySizeError 5)"
    by (simp add: aes_NewCipher_def)
  have e: "fst (initEncrypt ((vector_config xor_block)\<lparr>DecryptKey := Some [1, 2, 3, 4, 5]\<rparr>))
      = None"
    by (simp add: initEncrypt_def vector_config_def aes_NewCipher_vector_key)
  show ?thesis
    using rejected_key_construction_error [of Encrypt "[1, 2, 3, 4, 5]"
        "(vector_config xor_block)\<lparr>EncryptKey := Some [1, 2, 3, 4, 5]\<rparr>"
        "KeySizeError 5" 0 idle_world]
      rejected_key_construction_error [of Decrypt "[1, 2, 3, 4, 5]"
        "(vector_config xor_block)\<lparr>DecryptKey := Some [1, 2, 3, 4, 5]\<rparr>"
        "KeySizeError 5" 0 idle_world]
      r e
    by (simp add: vector_config_def)
qed

text \<open>
  C5, as the code has it. A direction whose stream is already present keeps that very
  stream. The builder makes no call for that direction, and it does not look at the key,
  the constructor or the IV of that direction: replacing them by anything changes neither
  the error nor the calls nor any other field of the resulting configuration. A call
  that finds both streams present returns \<open>nil\<close>, changes nothing and calls nothing, and
  that is what a second call after a successful one finds when no constructor of the
  configuration returns \<open>nil\<close>.
\<close>

theorem ready_stream_untouched:
  "(EncryptStream ed = Some s \<longrightarrow>
      EncryptStream (fst (snd (initCipherStream ed))) = Some s \<and>
      (\<forall>c \<in> set (snd (snd (initCipherStream ed))). call_direction c \<noteq> Encrypt) \<and>
      initCipherStream (ed\<lparr>EncryptKey := k, StreamEncrypter := f, EncryptIV := iv\<rparr>) =
        (fst (initCipherStream ed),
         (fst (snd (initCipherStream ed)))
           \<lparr>EncryptKey := k, StreamEncrypter := f, EncryptIV := iv\<rparr>,
         snd (snd (initCipherStream ed)))) \<and>
   (DecryptStream ed = Some s \<longrightarrow>
      DecryptStream (fst (snd (initCipherStream ed))) = Some s \<and>
      (\<forall>c \<in> set (snd (snd (initCipherStream ed))). call_direction c \<noteq> Decrypt) \<and>
      initCipherStream (ed\<lparr>DecryptKey := k, StreamDecrypter := f, DecryptIV := iv\<rparr>) =
        (fst (initCipherStream ed),
         (fst (snd (initCipherStream ed)))
           \<lparr>DecryptKey := k, StreamDecrypter := f, DecryptIV := iv\<rparr>,
         snd (snd (initCipherStream ed)))) \<and>
   (EncryptStream ed \<noteq> None \<and> DecryptStream ed \<noteq> None \<longrightarrow>
      initCipherStream ed = (None, ed, [])) \<and>
   (fst (initCipherStream ed) = None \<and>
    (\<forall>g blk v. StreamEncrypter ed = Some g \<longrightarrow> g blk v \<noteq> None) \<and>
    (\<forall>g blk v. StreamDecrypter ed = Some g \<longrightarrow> g blk v \<noteq> None) \<longrightarrow>
      initCipherStream (fst (snd (initCipherStream ed))) =
        (None, fst (snd (initCipherStream ed)), []))"
proof (intro conjI impI)
  assume r: "EncryptStream ed = Some s"
  note eq = initCipherStream_encrypt_ready [OF r]
  show "EncryptStream (fst (snd (initCipherStream ed))) = Some s"
    by (simp add: eq initDecrypt_keeps_EncryptStream r)
  show "\<forall>c \<in> set (snd (snd (initCipherStream ed))). call_direction c \<noteq> Encrypt"
    using initDecrypt_calls [of _ ed] by (auto simp: eq)
  have "EncryptStream (ed\<lparr>EncryptKey := k, StreamEncrypter := f, EncryptIV := iv\<rparr>) = Some s"
    using r by simp
  from initCipherStream_encrypt_ready [OF this]
  show "initCipherStream (ed\<lparr>EncryptKey := k, StreamEncrypter := f, EncryptIV := iv\<rparr>) =
        (fst (initCipherStream ed),
         (fst (snd (initCipherStream ed)))
           \<lparr>EncryptKey := k, StreamEncrypter := f, EncryptIV := iv\<rparr>,
         snd (snd (initCipherStream ed)))"
    by (simp add: eq initDecrypt_encrypt_material)
next
  assume r: "DecryptStream ed = Some s"
  have d1: "DecryptStream (fst (snd (initEncrypt ed))) = Some s"
    using initEncrypt_keeps_DecryptStream [of ed] r by simp
  show "DecryptStream (fst (snd (initCipherStream ed))) = Some s"
    using d1 initDecrypt_ready [OF d1]
    by (cases "initEncrypt ed") (auto simp: initCipherStream_def split: option.splits)
  show "\<forall>c \<in> set (snd (snd (initCipherStream ed))). call_direction c \<noteq> Decrypt"
  proof
    fix c assume "c \<in> set (snd (snd (initCipherStream ed)))"
    from initCipherStream_calls_split [OF this]
    show "call_direction c \<noteq> Decrypt"
      using initEncrypt_calls [of c ed] initDecrypt_ready [OF d1] by auto
  qed
  show "initCipherStream (ed\<lparr>DecryptKey := k, StreamDecrypter := f, DecryptIV := iv\<rparr>) =
        (fst (initCipherStream ed),
         (fst (snd (initCipherStream ed)))
           \<lparr>DecryptKey := k, StreamDecrypter := f, DecryptIV := iv\<rparr>,
         snd (snd (initCipherStream ed)))"
    by (rule initCipherStream_decrypt_ready_material [OF r])
next
  assume "EncryptStream ed \<noteq> None \<and> DecryptStream ed \<noteq> None"
  then show "initCipherStream ed = (None, ed, [])"
    using initCipherStream_again [of ed] by simp
next
  assume a: "fst (initCipherStream ed) = None \<and>
    (\<forall>g blk v. StreamEncrypter ed = Some g \<longrightarrow> g blk v \<noteq> None) \<and>
    (\<forall>g blk v. StreamDecrypter ed = Some g \<longrightarrow> g blk v \<noteq> None)"
  then have ok: "fst (initCipherStream ed) = None"
    and e: "\<forall>g blk v. StreamEncrypter ed = Some g \<longrightarrow> g blk v \<noteq> None"
    and d: "\<forall>g blk v. StreamDecrypter ed = Some g \<longrightarrow> g blk v \<noteq> None"
    by simp_all
  show "initCipherStream (fst (snd (initCipherStream ed))) =
        (None, fst (snd (initCipherStream ed)), [])"
    by (rule initCipherStream_again [OF both_streams [OF ok e d]])
qed

text \<open>
  C5 as stated fails in its last part. A constructor may return \<open>nil\<close>: the builder
  stores that and returns \<open>nil\<close> (line 46), so a second call finds no encrypt stream and
  calls \<open>aes.NewCipher\<close> and the constructor again.
\<close>

theorem nil_constructor_called_again:
  "fst (initCipherStream nil_config) = None \<and>
   snd (snd (initCipherStream (fst (snd (initCipherStream nil_config))))) =
     [NewCipher Encrypt vector_key, Constructor Encrypt (Block vector_key) vector_iv]"
  by (simp add: init_defs nil_config_def vector_config_def aes_NewCipher_vector_key
        nil_constructor_def NewDecrypter_def)

theorem ready_stream_untouched_witness:
  "EncryptStream ready_config =
     Some (mode_Encrypter (CTR xor_block) (Block vector_key) vector_iv) \<and>
   DecryptStream ready_config =
     Some (mode_Decrypter (CTR xor_block) (Block vector_key) vector_iv) \<and>
   fst (initCipherStream (vector_config xor_block)) = None \<and>
   fst (snd (initCipherStream (vector_config xor_block))) = ready_config \<and>
   initCipherStream ready_config = (None, ready_config, []) \<and>
   initCipherStream (ready_config\<lparr>EncryptKey := Some [1, 2, 3, 4, 5], StreamEncrypter := None,
                                   EncryptIV := None\<rparr>) =
     (None, ready_config\<lparr>EncryptKey := Some [1, 2, 3, 4, 5], StreamEncrypter := None,
                          EncryptIV := None\<rparr>, []) \<and>
   initCipherStream (ready_config\<lparr>DecryptKey := Some [1, 2, 3, 4, 5], StreamDecrypter := None,
                                   DecryptIV := None\<rparr>) =
     (None, ready_config\<lparr>DecryptKey := Some [1, 2, 3, 4, 5], StreamDecrypter := None,
                          DecryptIV := None\<rparr>, [])"
proof -
  have e: "EncryptStream ready_config =
     Some (mode_Encrypter (CTR xor_block) (Block vector_key) vector_iv)"
    and d: "DecryptStream ready_config =
     Some (mode_Decrypter (CTR xor_block) (Block vector_key) vector_iv)"
    by (simp_all add: ready_config_def)
  have c: "fst (snd (initCipherStream (vector_config xor_block))) = ready_config"
    and ok: "fst (initCipherStream (vector_config xor_block)) = None"
    by (simp_all add: initCipherStream_vector_config ready_config_def)
  have nn: "\<forall>g blk v. StreamEncrypter (vector_config xor_block) = Some g \<longrightarrow> g blk v \<noteq> None"
    "\<forall>g blk v. StreamDecrypter (vector_config xor_block) = Some g \<longrightarrow> g blk v \<noteq> None"
    by (auto simp: vector_config_def NewEncrypter_def NewDecrypter_def)
  have again: "initCipherStream ready_config = (None, ready_config, [])"
    using ready_stream_untouched [of "vector_config xor_block"] ok c nn by simp
  have again2: "initCipherStream ready_config = (None, ready_config, [])"
    using ready_stream_untouched [of ready_config] e d by simp
  have enc: "initCipherStream (ready_config\<lparr>EncryptKey := Some [1, 2, 3, 4, 5],
        StreamEncrypter := None, EncryptIV := None\<rparr>) =
     (None, ready_config\<lparr>EncryptKey := Some [1, 2, 3, 4, 5], StreamEncrypter := None,
                          EncryptIV := None\<rparr>, [])"
    using ready_stream_untouched [where ed = ready_config
                 and s = "mode_Encrypter (CTR xor_block) (Block vector_key) vector_iv"
                 and k = "Some [1, 2, 3, 4, 5]" and f = None and iv = None] e
    by (simp add: again)
  have dec: "initCipherStream (ready_config\<lparr>DecryptKey := Some [1, 2, 3, 4, 5],
        StreamDecrypter := None, DecryptIV := None\<rparr>) =
     (None, ready_config\<lparr>DecryptKey := Some [1, 2, 3, 4, 5], StreamDecrypter := None,
                          DecryptIV := None\<rparr>, [])"
    using ready_stream_untouched [where ed = ready_config
                 and s = "mode_Decrypter (CTR xor_block) (Block vector_key) vector_iv"
                 and k = "Some [1, 2, 3, 4, 5]" and f = None and iv = None] d
    by (simp add: again)
  show ?thesis using e d ok c again again2 enc dec by simp
qed

text \<open>
  C6 as stated fails: the decrypt block runs after the encrypt block, so when the
  decrypt direction fails with a configuration error the encrypt stream built by the
  same call stays in the configuration.
\<close>

theorem decrypt_failure_leaves_built_encrypt_stream:
  "fst (initCipherStream ((vector_config xor_block)\<lparr>DecryptKey := None\<rparr>)) =
     Some (ErrorString
        ''at least one of DecryptStream OR DecryptKey and StreamDecrypter must be set'') \<and>
   ConfigurationError (ErrorString
        ''at least one of DecryptStream OR DecryptKey and StreamDecrypter must be set'') \<and>
   EncryptStream ((vector_config xor_block)\<lparr>DecryptKey := None\<rparr>) = None \<and>
   EncryptStream (fst (snd (initCipherStream ((vector_config xor_block)\<lparr>DecryptKey := None\<rparr>))))
     = Some (mode_Encrypter (CTR xor_block) (Block vector_key) vector_iv)"
  by (simp add: init_defs vector_config_def aes_NewCipher_vector_key NewEncrypter_def)

text \<open>
  C6, as the code has it. When the builder fails with a configuration error of the
  encrypt direction, the whole configuration is unchanged, the decrypt fields with it.
  When it fails with a configuration error of the decrypt direction, every field other
  than \<open>EncryptStream\<close> is unchanged; \<open>EncryptStream\<close> is unchanged too if it was
  present before, and otherwise it is what the encrypt constructor has returned for the
  block cipher of the encrypt key and the encrypt IV.
\<close>

theorem configuration_error_frame:
  "(fst (initCipherStream ed) = Some e \<and> ConfigurationError e \<and> fst (initEncrypt ed) = Some e \<longrightarrow>
      fst (snd (initCipherStream ed)) = ed) \<and>
   (fst (initCipherStream ed) = Some e \<and> ConfigurationError e \<and> fst (initEncrypt ed) = None \<longrightarrow>
      fst (snd (initCipherStream ed)) =
        ed\<lparr>EncryptStream := EncryptStream (fst (snd (initCipherStream ed)))\<rparr> \<and>
      (EncryptStream ed \<noteq> None \<longrightarrow> fst (snd (initCipherStream ed)) = ed) \<and>
      (EncryptStream ed = None \<longrightarrow>
         (\<exists>f k iv. StreamEncrypter ed = Some f \<and> EncryptKey ed = Some k \<and>
                   EncryptIV ed = Some iv \<and>
                   EncryptStream (fst (snd (initCipherStream ed))) = f (Block k) iv)))"
proof (intro conjI impI)
  assume "fst (initCipherStream ed) = Some e \<and> ConfigurationError e \<and>
    fst (initEncrypt ed) = Some e"
  then have "fst (initEncrypt ed) = Some e" by simp
  from initCipherStream_encrypt_error [OF this]
  show "fst (snd (initCipherStream ed)) = ed" by simp
next
  assume a: "fst (initCipherStream ed) = Some e \<and> ConfigurationError e \<and>
    fst (initEncrypt ed) = None"
  then have n: "fst (initEncrypt ed) = None" by simp
  let ?ed1 = "fst (snd (initEncrypt ed))"
  note eq = initCipherStream_encrypt_ok [OF n]
  from a eq have "fst (initDecrypt ?ed1) = Some e" by simp
  from initDecrypt_error_cfg [OF this] eq
  have c: "fst (snd (initCipherStream ed)) = ?ed1" by simp
  show "fst (snd (initCipherStream ed)) =
        ed\<lparr>EncryptStream := EncryptStream (fst (snd (initCipherStream ed)))\<rparr>"
    using initEncrypt_cfg_cases [of ed] c by auto
  show "fst (snd (initCipherStream ed)) = ed" if "EncryptStream ed \<noteq> None"
    using initEncrypt_cfg_cases [of ed] c that by auto
  show "\<exists>f k iv. StreamEncrypter ed = Some f \<and> EncryptKey ed = Some k \<and>
                   EncryptIV ed = Some iv \<and>
                   EncryptStream (fst (snd (initCipherStream ed))) = f (Block k) iv"
    if "EncryptStream ed = None"
    using initEncrypt_built [OF n that] c by auto
qed

theorem configuration_error_frame_witness:
  "fst (initCipherStream ((vector_config xor_block)\<lparr>EncryptIV := None, DecryptKey := None\<rparr>)) =
     Some (ErrorString ''encrypt IV must be set'') \<and>
   fst (snd (initCipherStream
     ((vector_config xor_block)\<lparr>EncryptIV := None, DecryptKey := None\<rparr>))) =
     (vector_config xor_block)\<lparr>EncryptIV := None, DecryptKey := None\<rparr> \<and>
   fst (initCipherStream (ready_config\<lparr>DecryptStream := None, DecryptIV := None\<rparr>)) =
     Some (ErrorString ''decrypt IV must be set'') \<and>
   fst (snd (initCipherStream (ready_config\<lparr>DecryptStream := None, DecryptIV := None\<rparr>))) =
     ready_config\<lparr>DecryptStream := None, DecryptIV := None\<rparr> \<and>
   fst (initCipherStream ((vector_config xor_block)\<lparr>DecryptIV := None\<rparr>)) =
     Some (ErrorString ''decrypt IV must be set'') \<and>
   fst (snd (initCipherStream ((vector_config xor_block)\<lparr>DecryptIV := None\<rparr>))) =
     (vector_config xor_block)
       \<lparr>DecryptIV := None,
        EncryptStream := NewEncrypter (CTR xor_block) (Block vector_key) vector_iv\<rparr>"
proof -
  let ?a = "(vector_config xor_block)\<lparr>EncryptIV := None, DecryptKey := None\<rparr>"
  let ?b = "ready_config\<lparr>DecryptStream := None, DecryptIV := None\<rparr>"
  let ?c = "(vector_config xor_block)\<lparr>DecryptIV := None\<rparr>"
  have a1: "fst (initCipherStream ?a) = Some (ErrorString ''encrypt IV must be set'')"
    and a2: "fst (initEncrypt ?a) = Some (ErrorString ''encrypt IV must be set'')"
    by (simp_all add: init_defs vector_config_def)
  have b1: "fst (initCipherStream ?b) = Some (ErrorString ''decrypt IV must be set'')"
    and b2: "fst (initEncrypt ?b) = None" and b3: "EncryptStream ?b \<noteq> None"
    by (simp_all add: init_defs vector_config_def ready_config_def)
  have c1: "fst (initCipherStream ?c) = Some (ErrorString ''decrypt IV must be set'')"
    and c2: "fst (initEncrypt ?c) = None" and c3: "EncryptStream ?c = None"
    and c4: "StreamEncrypter ?c = Some (NewEncrypter (CTR xor_block))"
      "EncryptKey ?c = Some vector_key" "EncryptIV ?c = Some vector_iv"
    by (simp_all add: init_defs vector_config_def aes_NewCipher_vector_key)
  have a: "fst (snd (initCipherStream ?a)) = ?a"
    using configuration_error_frame [of ?a "ErrorString ''encrypt IV must be set''"] a1 a2 by simp
  have b: "fst (snd (initCipherStream ?b)) = ?b"
    using configuration_error_frame [of ?b "ErrorString ''decrypt IV must be set''"] b1 b2 b3 by simp
  have h: "fst (snd (initCipherStream ?c)) =
      ?c\<lparr>EncryptStream := EncryptStream (fst (snd (initCipherStream ?c)))\<rparr> \<and>
    EncryptStream (fst (snd (initCipherStream ?c))) =
      NewEncrypter (CTR xor_block) (Block vector_key) vector_iv"
    using configuration_error_frame [of ?c "ErrorString ''decrypt IV must be set''"] c1 c2 c3 c4
    by auto
  have c: "fst (snd (initCipherStream ?c)) =
      ?c\<lparr>EncryptStream := NewEncrypter (CTR xor_block) (Block vector_key) vector_iv\<rparr>"
    by (subst conjunct1 [OF h]) (simp only: conjunct2 [OF h])
  show ?thesis using a1 a b1 b c1 c by simp
qed

text \<open>
  C7, as the code has it. When the builder returns \<open>nil\<close>, each direction's stream is
  the one that was already present or, where none was, what that direction's
  constructor has returned for the block cipher of the key and the IV, which are all
  set; so both streams are present when no constructor of the configuration returns
  \<open>nil\<close>. A transform goes past the builder only when the builder returns \<open>nil\<close>: when
  it fails, neither transform returns a connection and the store is untouched, and when
  it succeeds, the two goroutines are given exactly those two streams.
\<close>

theorem success_stores_constructor_results:
  "(fst (initCipherStream ed) = None \<longrightarrow>
      (\<forall>s. EncryptStream ed = Some s \<longrightarrow>
           EncryptStream (fst (snd (initCipherStream ed))) = Some s) \<and>
      (\<forall>s. DecryptStream ed = Some s \<longrightarrow>
           DecryptStream (fst (snd (initCipherStream ed))) = Some s) \<and>
      (EncryptStream ed = None \<longrightarrow>
         (\<exists>f k iv. StreamEncrypter ed = Some f \<and> EncryptKey ed = Some k \<and>
                   EncryptIV ed = Some iv \<and>
                   EncryptStream (fst (snd (initCipherStream ed))) = f (Block k) iv)) \<and>
      (DecryptStream ed = None \<longrightarrow>
         (\<exists>f k iv. StreamDecrypter ed = Some f \<and> DecryptKey ed = Some k \<and>
                   DecryptIV ed = Some iv \<and>
                   DecryptStream (fst (snd (initCipherStream ed))) = f (Block k) iv))) \<and>
   (fst (initCipherStream ed) = None \<and>
    (\<forall>g blk v. StreamEncrypter ed = Some g \<longrightarrow> g blk v \<noteq> None) \<and>
    (\<forall>g blk v. StreamDecrypter ed = Some g \<longrightarrow> g blk v \<noteq> None) \<longrightarrow>
      EncryptStream (fst (snd (initCipherStream ed))) \<noteq> None \<and>
      DecryptStream (fst (snd (initCipherStream ed))) \<noteq> None) \<and>
   (fst (initCipherStream ed) \<noteq> None \<longrightarrow>
      (\<forall>x. fst (Ciphertext ed c w) \<noteq> Inr x) \<and> snd (snd (Ciphertext ed c w)) = w \<and>
      (\<forall>x. fst (Plaintext ed c w) \<noteq> Inr x) \<and> snd (snd (Plaintext ed c w)) = w) \<and>
   (fst (initCipherStream ed) = None \<longrightarrow>
      map task_stream (drop (length (tasks w)) (tasks (snd (snd (Ciphertext ed c w))))) =
        [DecryptStream (fst (snd (initCipherStream ed))),
         EncryptStream (fst (snd (initCipherStream ed)))] \<and>
      map task_stream (drop (length (tasks w)) (tasks (snd (snd (Plaintext ed c w))))) =
        [EncryptStream (fst (snd (initCipherStream ed))),
         DecryptStream (fst (snd (initCipherStream ed)))])"
proof (intro conjI impI allI)
  fix s assume ok: "fst (initCipherStream ed) = None" and s: "EncryptStream ed = Some s"
  show "EncryptStream (fst (snd (initCipherStream ed))) = Some s"
    by (rule init_encrypt_kept [OF ok s])
next
  fix s assume ok: "fst (initCipherStream ed) = None" and s: "DecryptStream ed = Some s"
  show "DecryptStream (fst (snd (initCipherStream ed))) = Some s"
    by (rule init_decrypt_kept [OF ok s])
next
  assume ok: "fst (initCipherStream ed) = None" and n: "EncryptStream ed = None"
  from init_material_set(1) [OF ok n] obtain f k iv
    where m: "StreamEncrypter ed = Some f" "EncryptKey ed = Some k" "EncryptIV ed = Some iv"
    by auto
  from init_encrypt_stream [OF ok n m] m
  show "\<exists>f k iv. StreamEncrypter ed = Some f \<and> EncryptKey ed = Some k \<and>
                   EncryptIV ed = Some iv \<and>
                   EncryptStream (fst (snd (initCipherStream ed))) = f (Block k) iv"
    by blast
next
  assume ok: "fst (initCipherStream ed) = None" and n: "DecryptStream ed = None"
  from init_material_set(2) [OF ok n] obtain f k iv
    where m: "StreamDecrypter ed = Some f" "DecryptKey ed = Some k" "DecryptIV ed = Some iv"
    by auto
  from init_decrypt_stream [OF ok n m] m
  show "\<exists>f k iv. StreamDecrypter ed = Some f \<and> DecryptKey ed = Some k \<and>
                   DecryptIV ed = Some iv \<and>
                   DecryptStream (fst (snd (initCipherStream ed))) = f (Block k) iv"
    by blast
next
  assume a: "fst (initCipherStream ed) = None \<and>
    (\<forall>g blk v. StreamEncrypter ed = Some g \<longrightarrow> g blk v \<noteq> None) \<and>
    (\<forall>g blk v. StreamDecrypter ed = Some g \<longrightarrow> g blk v \<noteq> None)"
  then have ok: "fst (initCipherStream ed) = None"
    and e: "\<forall>g blk v. StreamEncrypter ed = Some g \<longrightarrow> g blk v \<noteq> None"
    and d: "\<forall>g blk v. StreamDecrypter ed = Some g \<longrightarrow> g blk v \<noteq> None"
    by simp_all
  show "EncryptStream (fst (snd (initCipherStream ed))) \<noteq> None"
    by (rule both_streams(1) [OF ok e d])
  show "DecryptStream (fst (snd (initCipherStream ed))) \<noteq> None"
    by (rule both_streams(2) [OF ok e d])
next
  assume "fst (initCipherStream ed) \<noteq> None"
  then obtain e where e: "fst (initCipherStream ed) = Some e" by auto
  show "snd (snd (Ciphertext ed c w)) = w" "snd (snd (Plaintext ed c w)) = w"
    by (simp_all add: Ciphertext_error [OF e] Plaintext_error [OF e])
  show "fst (Ciphertext ed c w) \<noteq> Inr x" for x
    by (simp add: Ciphertext_error [OF e])
  show "fst (Plaintext ed c w) \<noteq> Inr x" for x
    by (simp add: Plaintext_error [OF e])
next
  assume ok: "fst (initCipherStream ed) = None"
  show "map task_stream (drop (length (tasks w)) (tasks (snd (snd (Ciphertext ed c w))))) =
        [DecryptStream (fst (snd (initCipherStream ed))),
         EncryptStream (fst (snd (initCipherStream ed)))]"
    by (simp add: Ciphertext_new_tasks [OF ok])
  show "map task_stream (drop (length (tasks w)) (tasks (snd (snd (Plaintext ed c w))))) =
        [EncryptStream (fst (snd (initCipherStream ed))),
         DecryptStream (fst (snd (initCipherStream ed)))]"
    by (simp add: Plaintext_new_tasks [OF ok])
qed

text \<open>
  C7 as stated fails. With an encrypt constructor that returns \<open>nil\<close> the builder
  returns \<open>nil\<close> and leaves no encrypt stream (line 46 stores the result unchecked), and
  the "to ciphertext" transform goes on: it returns a connection and starts its encrypt
  goroutine on the \<open>nil\<close> stream, which panics when the real connection delivers a
  byte.
\<close>

theorem nil_constructor_success:
  "fst (initCipherStream nil_config) = None \<and>
   EncryptStream (fst (snd (initCipherStream nil_config))) = None \<and>
   fst (Ciphertext nil_config 0 idle_world) =
     Inr \<lparr>ReadWriter = \<lparr>Reader = 1, Writer = 0\<rparr>, Conn = 0\<rparr> \<and>
   map task_stream (tasks (snd (snd (Ciphertext nil_config 0 idle_world)))) =
     [Some (mode_Decrypter (CTR xor_block) (Block vector_key) vector_iv), None] \<and>
   task_status (tasks (run_task 1 (snd (snd (Ciphertext nil_config 0
                                               (feed_world [([1], None)]))))) ! 1) = Panicked"
proof -
  let ?wf = "feed_world [([1], None)]"
  let ?w1 = "snd (snd (Ciphertext nil_config 0 ?wf))"
  have i: "initCipherStream nil_config =
      (None,
       nil_config\<lparr>DecryptStream :=
                    Some (mode_Decrypter (CTR xor_block) (Block vector_key) vector_iv)\<rparr>,
       [NewCipher Encrypt vector_key, Constructor Encrypt (Block vector_key) vector_iv,
        NewCipher Decrypt vector_key, Constructor Decrypt (Block vector_key) vector_iv])"
    by (simp add: init_defs nil_config_def vector_config_def aes_NewCipher_vector_key
          nil_constructor_def NewDecrypter_def)
  have ok: "fst (initCipherStream nil_config) = None" by (simp add: i)
  have e: "EncryptStream (fst (snd (initCipherStream nil_config))) = None"
    by (simp add: i) (simp add: nil_config_def vector_config_def)
  have g: "fst (Ciphertext nil_config 0 idle_world) =
     Inr \<lparr>ReadWriter = \<lparr>Reader = 1, Writer = 0\<rparr>, Conn = 0\<rparr>"
    using Ciphertext_ok_iff [of nil_config 0 idle_world] ok
      Ciphertext_Inr [of nil_config 0 idle_world]
    by (auto simp: idle_world_def)
  have t: "map task_stream (tasks (snd (snd (Ciphertext nil_config 0 idle_world)))) =
     [Some (mode_Decrypter (CTR xor_block) (Block vector_key) vector_iv), None]"
    using e by (simp add: Ciphertext_new_tasks [OF ok] idle_world_def) (simp add: i)
  have np: "npipes ?wf = 0" "tasks ?wf = []"
    by (simp_all add: feed_world_def idle_world_def)
  note tk = Ciphertext_new_tasks_nth [OF ok, where w = ?wf and c = 0]
  have l: "1 < length (tasks ?w1)" and r: "task_status (tasks ?w1 ! 1) = Running"
    and s: "task_stream (tasks ?w1 ! 1) = None"
    and wr: "task_wrapper (tasks ?w1 ! 1) = ByStreamWriter"
    and rt: "task_route (tasks ?w1 ! 1) = ConnToPipe 0 1"
    using tk e by (simp_all add: np)
  have c: "conns ?w1 = conns ?wf" by (rule Ciphertext_conns)
  have op: "\<not> conn_closed (conns ?w1 0)" by (simp add: c feed_world_open)
  have rx: "conn_rx (conns ?w1 0) = ([1], None) # []" by (simp add: c feed_world_rx)
  have p: "task_status (tasks (run_task 1 ?w1) ! 1) = Panicked"
    by (rule run_task_nil_stream [OF l r s wr rt op rx]) simp
  show ?thesis using ok e g t p by simp
qed

theorem success_stores_constructor_results_witness:
  "fst (initCipherStream (vector_config xor_block)) = None \<and>
   EncryptStream (fst (snd (initCipherStream (vector_config xor_block)))) =
     NewEncrypter (CTR xor_block) (Block vector_key) vector_iv \<and>
   DecryptStream (fst (snd (initCipherStream (vector_config xor_block)))) =
     NewDecrypter (CTR xor_block) (Block vector_key) vector_iv \<and>
   EncryptStream (fst (snd (initCipherStream (vector_config xor_block)))) \<noteq> None \<and>
   DecryptStream (fst (snd (initCipherStream (vector_config xor_block)))) \<noteq> None \<and>
   EncryptStream (fst (snd (initCipherStream ready_config))) = EncryptStream ready_config \<and>
   DecryptStream (fst (snd (initCipherStream ready_config))) = DecryptStream ready_config \<and>
   map task_stream (tasks (snd (snd (Ciphertext (vector_config xor_block) 0 idle_world)))) =
     [Some (mode_Decrypter (CTR xor_block) (Block vector_key) vector_iv),
      Some (mode_Encrypter (CTR xor_block) (Block vector_key) vector_iv)] \<and>
   fst (initCipherStream ((vector_config xor_block)\<lparr>DecryptKey := None\<rparr>)) \<noteq> None \<and>
   snd (snd (Ciphertext ((vector_config xor_block)\<lparr>DecryptKey := None\<rparr>) 0 idle_world))
     = idle_world"
proof -
  let ?v = "vector_config xor_block"
  let ?bad = "(vector_config xor_block)\<lparr>DecryptKey := None\<rparr>"
  have ok: "fst (initCipherStream ?v) = None" by (simp add: initCipherStream_vector_config)
  have m: "EncryptStream ?v = None" "DecryptStream ?v = None"
    "StreamEncrypter ?v = Some (NewEncrypter (CTR xor_block))"
    "StreamDecrypter ?v = Some (NewDecrypter (CTR xor_block))"
    "EncryptKey ?v = Some vector_key" "EncryptIV ?v = Some vector_iv"
    "DecryptKey ?v = Some vector_key" "DecryptIV ?v = Some vector_iv"
    by (simp_all add: vector_config_def)
  have nn: "\<forall>g blk v. StreamEncrypter ?v = Some g \<longrightarrow> g blk v \<noteq> None"
    "\<forall>g blk v. StreamDecrypter ?v = Some g \<longrightarrow> g blk v \<noteq> None"
    by (auto simp: vector_config_def NewEncrypter_def NewDecrypter_def)
  note t = success_stores_constructor_results [of ?v 0 idle_world]
  have e: "EncryptStream (fst (snd (initCipherStream ?v))) =
      NewEncrypter (CTR xor_block) (Block vector_key) vector_iv"
    using t ok m by auto
  have d: "DecryptStream (fst (snd (initCipherStream ?v))) =
      NewDecrypter (CTR xor_block) (Block vector_key) vector_iv"
    using t ok m by auto
  have p: "EncryptStream (fst (snd (initCipherStream ?v))) \<noteq> None"
    "DecryptStream (fst (snd (initCipherStream ?v))) \<noteq> None"
    using t ok nn by blast+
  have okr: "fst (initCipherStream ready_config) = None"
    by (simp add: init_defs ready_config_def)
  have r: "EncryptStream (fst (snd (initCipherStream ready_config))) = EncryptStream ready_config"
    "DecryptStream (fst (snd (initCipherStream ready_config))) = DecryptStream ready_config"
    using success_stores_constructor_results [of ready_config 0 idle_world] okr
    by (auto simp: ready_config_def)
  have tk: "map task_stream (tasks (snd (snd (Ciphertext ?v 0 idle_world)))) =
     [Some (mode_Decrypter (CTR xor_block) (Block vector_key) vector_iv),
      Some (mode_Encrypter (CTR xor_block) (Block vector_key) vector_iv)]"
    using t ok e d by (simp add: idle_world_def NewEncrypter_def NewDecrypter_def)
  have b1: "fst (initCipherStream ?bad) \<noteq> None"
    by (simp add: init_defs vector_config_def aes_NewCipher_vector_key)
  have b2: "snd (snd (Ciphertext ?bad 0 idle_world)) = idle_world"
    using success_stores_constructor_results [of ?bad 0 idle_world] b1 by blast
  show ?thesis using ok e d p r tk b1 b2 by simp
qed

section \<open>The claims about the guarded connection and the data path\<close>

text \<open>
  C2. \<open>Read\<close> on the guarded connection begins with a read of length zero on the real
  connection. If that probe returns an error, \<open>Read\<close> returns no bytes and that error,
  the pipes are as they were and the probe is the only operation performed; if the probe
  succeeds, \<open>Read\<close> returns what the read of the pipe returns, and the probe and that
  read are the only operations performed. \<open>Write\<close> is the same with a write of length
  zero. In the model of the connection the probe answers at once, and it fails exactly
  when the connection has been closed.
\<close>

theorem guarded_probe_before_pipe:
  "(\<forall>b e. fst (conn_Read (Conn c) 0 w) = Some (b, Some e) \<longrightarrow>
      CipherConn_Read c n w = (Some ([], Some e), snd (conn_Read (Conn c) 0 w)) \<and>
      pipes (snd (CipherConn_Read c n w)) = pipes w \<and>
      trace (snd (CipherConn_Read c n w)) = trace w @ [ConnRead (Conn c) 0]) \<and>
   (\<forall>b. fst (conn_Read (Conn c) 0 w) = Some (b, None) \<longrightarrow>
      CipherConn_Read c n w =
        pipe_Read (Reader (ReadWriter c)) n (snd (conn_Read (Conn c) 0 w)) \<and>
      trace (snd (CipherConn_Read c n w)) =
        trace w @ [ConnRead (Conn c) 0, PipeRead (Reader (ReadWriter c)) n]) \<and>
   (\<forall>k e. fst (conn_Write (Conn c) [] w) = (k, Some e) \<longrightarrow>
      CipherConn_Write c bs w = ((0, Some e), snd (conn_Write (Conn c) [] w)) \<and>
      pipes (snd (CipherConn_Write c bs w)) = pipes w \<and>
      trace (snd (CipherConn_Write c bs w)) = trace w @ [ConnWrite (Conn c) []]) \<and>
   (\<forall>k. fst (conn_Write (Conn c) [] w) = (k, None) \<longrightarrow>
      CipherConn_Write c bs w =
        pipe_Write (Writer (ReadWriter c)) bs (snd (conn_Write (Conn c) [] w)) \<and>
      trace (snd (CipherConn_Write c bs w)) =
        trace w @ [ConnWrite (Conn c) [], PipeWrite (Writer (ReadWriter c)) bs]) \<and>
   (\<exists>r. fst (conn_Read (Conn c) 0 w) = Some r) \<and>
   (conn_closed (conns w (Conn c)) \<longleftrightarrow> (\<exists>b e. fst (conn_Read (Conn c) 0 w) = Some (b, Some e))) \<and>
   (conn_closed (conns w (Conn c)) \<longleftrightarrow> (\<exists>k e. fst (conn_Write (Conn c) [] w) = (k, Some e)))"
proof (intro conjI allI impI)
  fix b e assume a: "fst (conn_Read (Conn c) 0 w) = Some (b, Some e)"
  then show "CipherConn_Read c n w = (Some ([], Some e), snd (conn_Read (Conn c) 0 w))"
    by (auto simp: CipherConn_Read_def conn_Read_zero split: if_splits)
  from a show "pipes (snd (CipherConn_Read c n w)) = pipes w"
    by (auto simp: CipherConn_Read_def conn_Read_zero log_def split: if_splits)
  from a show "trace (snd (CipherConn_Read c n w)) = trace w @ [ConnRead (Conn c) 0]"
    by (auto simp: CipherConn_Read_def conn_Read_zero log_def split: if_splits)
next
  fix b assume a: "fst (conn_Read (Conn c) 0 w) = Some (b, None)"
  then show "CipherConn_Read c n w =
        pipe_Read (Reader (ReadWriter c)) n (snd (conn_Read (Conn c) 0 w))"
    by (auto simp: CipherConn_Read_def conn_Read_zero split: if_splits)
  from a show "trace (snd (CipherConn_Read c n w)) =
        trace w @ [ConnRead (Conn c) 0, PipeRead (Reader (ReadWriter c)) n]"
    by (auto simp: CipherConn_Read_def conn_Read_zero pipe_Read_def Let_def log_def set_pipe_def
          split: if_splits list.splits)
next
  fix k e assume a: "fst (conn_Write (Conn c) [] w) = (k, Some e)"
  then show "CipherConn_Write c bs w = ((0, Some e), snd (conn_Write (Conn c) [] w))"
    by (auto simp: CipherConn_Write_def conn_Write_empty split: if_splits)
  from a show "pipes (snd (CipherConn_Write c bs w)) = pipes w"
    by (auto simp: CipherConn_Write_def conn_Write_empty log_def split: if_splits)
  from a show "trace (snd (CipherConn_Write c bs w)) = trace w @ [ConnWrite (Conn c) []]"
    by (auto simp: CipherConn_Write_def conn_Write_empty log_def split: if_splits)
next
  fix k assume a: "fst (conn_Write (Conn c) [] w) = (k, None)"
  then show "CipherConn_Write c bs w =
        pipe_Write (Writer (ReadWriter c)) bs (snd (conn_Write (Conn c) [] w))"
    by (auto simp: CipherConn_Write_def conn_Write_empty split: if_splits)
  from a show "trace (snd (CipherConn_Write c bs w)) =
        trace w @ [ConnWrite (Conn c) [], PipeWrite (Writer (ReadWriter c)) bs]"
    by (auto simp: CipherConn_Write_def conn_Write_empty pipe_Write_def Let_def log_def
          set_pipe_def split: if_splits)
next
  show "\<exists>r. fst (conn_Read (Conn c) 0 w) = Some r" by (simp add: conn_Read_zero)
  show "conn_closed (conns w (Conn c)) \<longleftrightarrow>
      (\<exists>b e. fst (conn_Read (Conn c) 0 w) = Some (b, Some e))"
    by (simp add: conn_Read_zero)
  show "conn_closed (conns w (Conn c)) \<longleftrightarrow>
      (\<exists>k e. fst (conn_Write (Conn c) [] w) = (k, Some e))"
    by (simp add: conn_Write_empty)
qed

theorem guarded_probe_before_pipe_witness:
  "fst (conn_Read (Conn loop_conn) 0 closed_world) = Some ([], Some ErrNetClosed) \<and>
   fst (CipherConn_Read loop_conn 2 closed_world) = Some ([], Some ErrNetClosed) \<and>
   pipes (snd (CipherConn_Read loop_conn 2 closed_world)) = pipes closed_world \<and>
   fst (conn_Write (Conn loop_conn) [] closed_world) = (0, Some ErrNetClosed) \<and>
   fst (CipherConn_Write loop_conn [1, 2, 3] closed_world) = (0, Some ErrNetClosed) \<and>
   pipes (snd (CipherConn_Write loop_conn [1, 2, 3] closed_world)) = pipes closed_world \<and>
   fst (conn_Write (Conn loop_conn) [] idle_world) = (0, None) \<and>
   fst (CipherConn_Write loop_conn [1, 2, 3] idle_world) = (3, None) \<and>
   fst (conn_Read (Conn loop_conn) 0 (snd (CipherConn_Write loop_conn [1, 2, 3] idle_world)))
     = Some ([], None) \<and>
   fst (CipherConn_Read loop_conn 2 (snd (CipherConn_Write loop_conn [1, 2, 3] idle_world)))
     = Some ([1, 2], None)"
proof -
  let ?w = "snd (CipherConn_Write loop_conn [1, 2, 3] idle_world)"
  have p1: "fst (conn_Read (Conn loop_conn) 0 closed_world) = Some ([], Some ErrNetClosed)"
    by (simp add: conn_Read_zero closed_world_closed loop_conn_def)
  have p2: "fst (conn_Write (Conn loop_conn) [] closed_world) = (0, Some ErrNetClosed)"
    by (simp add: conn_Write_empty closed_world_closed loop_conn_def)
  have p3: "fst (conn_Write (Conn loop_conn) [] idle_world) = (0, None)"
    by (simp add: conn_Write_empty idle_world_open)
  have r1: "fst (CipherConn_Read loop_conn 2 closed_world) = Some ([], Some ErrNetClosed)"
    "pipes (snd (CipherConn_Read loop_conn 2 closed_world)) = pipes closed_world"
    using guarded_probe_before_pipe [of loop_conn closed_world 2 "[]"] p1 by (simp, blast)
  have r2: "fst (CipherConn_Write loop_conn [1, 2, 3] closed_world) = (0, Some ErrNetClosed)"
    "pipes (snd (CipherConn_Write loop_conn [1, 2, 3] closed_world)) = pipes closed_world"
    using guarded_probe_before_pipe [of loop_conn closed_world 2 "[1, 2, 3]"] p2 by (simp, blast)
  have w: "CipherConn_Write loop_conn [1, 2, 3] idle_world =
      pipe_Write 0 [1, 2, 3] (log (ConnWrite 0 []) idle_world)"
    using guarded_probe_before_pipe [of loop_conn idle_world 2 "[1, 2, 3]"] p3
    by (simp add: conn_Write_empty idle_world_open loop_conn_def)
  have w1: "fst (CipherConn_Write loop_conn [1, 2, 3] idle_world) = (3, None)"
    unfolding w by (simp add: pipe_Write_def Let_def log_def idle_world_def)
  have w2: "pipe_pending (pipes ?w 0) = [[1, 2, 3]]" "\<not> pipe_rclosed (pipes ?w 0)"
    "\<not> conn_closed (conns ?w 0)"
    unfolding w by (simp_all add: pipe_Write_def Let_def log_def idle_world_def set_pipe_def)
  have p4: "fst (conn_Read (Conn loop_conn) 0 ?w) = Some ([], None)"
    using w2 by (simp add: conn_Read_zero loop_conn_def)
  have "CipherConn_Read loop_conn 2 ?w =
      pipe_Read (Reader (ReadWriter loop_conn)) 2 (snd (conn_Read (Conn loop_conn) 0 ?w))"
    using guarded_probe_before_pipe [of loop_conn ?w 2 "[]"] p4 by simp
  then have r3: "fst (CipherConn_Read loop_conn 2 ?w) = Some ([1, 2], None)"
    using w2 by (simp add: loop_conn_def conn_Read_zero pipe_Read_def Let_def log_def)
  show ?thesis using p1 p2 p3 p4 r1 r2 r3 w1 by simp
qed

text \<open>
  C10. Whatever operations of the core are performed, in whatever order, no pipe end
  that was open becomes closed, and the trace grows only by events that close no pipe
  end; the two pipes a transform has made stay open at both ends under every sequence
  of operations that follows. \<open>Close\<close> on the guarded connection performs one close of
  the real connection and nothing else: the pipes are unchanged, so a chunk waiting in a
  pipe keeps waiting and a read of a pipe that was blocked before is blocked after. A
  goroutine that has ended has closed the real connection of its guarded connection,
  as its last operation.
\<close>

theorem core_never_closes_pipe_ends:
  "(\<forall>p. (\<not> pipe_rclosed (pipes w p) \<longrightarrow> \<not> pipe_rclosed (pipes (perform_all xs w) p)) \<and>
        (\<not> pipe_wclosed (pipes w p) \<longrightarrow> \<not> pipe_wclosed (pipes (perform_all xs w) p))) \<and>
   take (length (trace w)) (trace (perform_all xs w)) = trace w \<and>
   (\<forall>e \<in> set (drop (length (trace w)) (trace (perform_all xs w))). \<not> is_pipe_close e) \<and>
   (\<forall>h. fst (Ciphertext ed c w) = Inr h \<longrightarrow>
      \<not> pipe_rclosed (pipes (perform_all xs (snd (snd (Ciphertext ed c w))))
                         (Reader (ReadWriter h))) \<and>
      \<not> pipe_wclosed (pipes (perform_all xs (snd (snd (Ciphertext ed c w))))
                         (Reader (ReadWriter h))) \<and>
      \<not> pipe_rclosed (pipes (perform_all xs (snd (snd (Ciphertext ed c w))))
                         (Writer (ReadWriter h))) \<and>
      \<not> pipe_wclosed (pipes (perform_all xs (snd (snd (Ciphertext ed c w))))
                         (Writer (ReadWriter h)))) \<and>
   (\<forall>h. fst (Plaintext ed c w) = Inr h \<longrightarrow>
      \<not> pipe_rclosed (pipes (perform_all xs (snd (snd (Plaintext ed c w))))
                         (Reader (ReadWriter h))) \<and>
      \<not> pipe_wclosed (pipes (perform_all xs (snd (snd (Plaintext ed c w))))
                         (Reader (ReadWriter h))) \<and>
      \<not> pipe_rclosed (pipes (perform_all xs (snd (snd (Plaintext ed c w))))
                         (Writer (ReadWriter h))) \<and>
      \<not> pipe_wclosed (pipes (perform_all xs (snd (snd (Plaintext ed c w))))
                         (Writer (ReadWriter h)))) \<and>
   pipes (snd (CipherConn_Close g w)) = pipes w \<and>
   trace (snd (CipherConn_Close g w)) = trace w @ [ConnClose (Conn g)] \<and>
   (\<forall>k. k \<noteq> Conn g \<longrightarrow> conns (snd (CipherConn_Close g w)) k = conns w k) \<and>
   (\<forall>p n. fst (pipe_Read p n w) = None \<longrightarrow>
      fst (pipe_Read p n (snd (CipherConn_Close g w))) = None) \<and>
   (i < length (tasks w) \<and> task_status (tasks w ! i) = Running \<and>
    task_status (tasks (run_task i w) ! i) = Finished \<longrightarrow>
      conn_closed (conns (run_task i w) (Conn (task_owner (tasks w ! i)))) \<and>
      last (trace (run_task i w)) = ConnClose (Conn (task_owner (tasks w ! i))))"
proof (intro conjI allI impI)
  fix p
  show "\<not> pipe_rclosed (pipes w p) \<Longrightarrow> \<not> pipe_rclosed (pipes (perform_all xs w) p)"
    by (rule quiet_open(1) [OF quiet_perform_all])
  show "\<not> pipe_wclosed (pipes w p) \<Longrightarrow> \<not> pipe_wclosed (pipes (perform_all xs w) p)"
    by (rule quiet_open(2) [OF quiet_perform_all])
next
  show "take (length (trace w)) (trace (perform_all xs w)) = trace w"
    by (rule quiet_trace(1) [OF quiet_perform_all])
  show "\<forall>e \<in> set (drop (length (trace w)) (trace (perform_all xs w))). \<not> is_pipe_close e"
    by (rule quiet_trace(2) [OF quiet_perform_all])
next
  fix h assume a: "fst (Ciphertext ed c w) = Inr h"
  let ?w1 = "snd (snd (Ciphertext ed c w))"
  note o = Ciphertext_Inr [OF a]
  have q: "quiet ?w1 (perform_all xs ?w1)" by (rule quiet_perform_all)
  have o1: "\<not> pipe_rclosed (pipes ?w1 (Reader (ReadWriter h)))"
    and o2: "\<not> pipe_wclosed (pipes ?w1 (Reader (ReadWriter h)))"
    and o3: "\<not> pipe_rclosed (pipes ?w1 (Writer (ReadWriter h)))"
    and o4: "\<not> pipe_wclosed (pipes ?w1 (Writer (ReadWriter h)))"
    using o by simp_all
  show "\<not> pipe_rclosed (pipes (perform_all xs ?w1) (Reader (ReadWriter h)))"
    by (rule quiet_open(1) [OF q o1])
  show "\<not> pipe_wclosed (pipes (perform_all xs ?w1) (Reader (ReadWriter h)))"
    by (rule quiet_open(2) [OF q o2])
  show "\<not> pipe_rclosed (pipes (perform_all xs ?w1) (Writer (ReadWriter h)))"
    by (rule quiet_open(1) [OF q o3])
  show "\<not> pipe_wclosed (pipes (perform_all xs ?w1) (Writer (ReadWriter h)))"
    by (rule quiet_open(2) [OF q o4])
next
  fix h assume a: "fst (Plaintext ed c w) = Inr h"
  let ?w1 = "snd (snd (Plaintext ed c w))"
  note o = Plaintext_Inr [OF a]
  have q: "quiet ?w1 (perform_all xs ?w1)" by (rule quiet_perform_all)
  have o1: "\<not> pipe_rclosed (pipes ?w1 (Reader (ReadWriter h)))"
    and o2: "\<not> pipe_wclosed (pipes ?w1 (Reader (ReadWriter h)))"
    and o3: "\<not> pipe_rclosed (pipes ?w1 (Writer (ReadWriter h)))"
    and o4: "\<not> pipe_wclosed (pipes ?w1 (Writer (ReadWriter h)))"
    using o by simp_all
  show "\<not> pipe_rclosed (pipes (perform_all xs ?w1) (Reader (ReadWriter h)))"
    by (rule quiet_open(1) [OF q o1])
  show "\<not> pipe_wclosed (pipes (perform_all xs ?w1) (Reader (ReadWriter h)))"
    by (rule quiet_open(2) [OF q o2])
  show "\<not> pipe_rclosed (pipes (perform_all xs ?w1) (Writer (ReadWriter h)))"
    by (rule quiet_open(1) [OF q o3])
  show "\<not> pipe_wclosed (pipes (perform_all xs ?w1) (Writer (ReadWriter h)))"
    by (rule quiet_open(2) [OF q o4])
next
  show "pipes (snd (CipherConn_Close g w)) = pipes w"
    "trace (snd (CipherConn_Close g w)) = trace w @ [ConnClose (Conn g)]"
    using CipherConn_Close_frame [of g w] by simp_all
next
  fix k assume "k \<noteq> Conn g"
  then show "conns (snd (CipherConn_Close g w)) k = conns w k"
    using CipherConn_Close_frame [of g w] by simp
next
  fix p n assume "fst (pipe_Read p n w) = None"
  then show "fst (pipe_Read p n (snd (CipherConn_Close g w))) = None"
    using CipherConn_Close_frame [of g w] by (simp add: pipe_Read_blocked_iff)
next
  assume "i < length (tasks w) \<and> task_status (tasks w ! i) = Running \<and>
    task_status (tasks (run_task i w) ! i) = Finished"
  then show "conn_closed (conns (run_task i w) (Conn (task_owner (tasks w ! i))))"
    "last (trace (run_task i w)) = ConnClose (Conn (task_owner (tasks w ! i)))"
    using run_task_finished [of i w] by simp_all
qed

theorem core_never_closes_pipe_ends_witness:
  "\<not> pipe_rclosed (pipes idle_world 0) \<and> \<not> pipe_wclosed (pipes idle_world 0) \<and>
   \<not> pipe_rclosed (pipes (perform_all
        [DoCiphertext (vector_config xor_block) 0, DoWrite loop_conn [1, 2, 3], DoRun 0,
         DoRun 1, DoClose loop_conn, DoRead loop_conn 4] idle_world) 0) \<and>
   \<not> pipe_wclosed (pipes (perform_all
        [DoCiphertext (vector_config xor_block) 0, DoWrite loop_conn [1, 2, 3], DoRun 0,
         DoRun 1, DoClose loop_conn, DoRead loop_conn 4] idle_world) 0) \<and>
   fst (Ciphertext (vector_config xor_block) 0 idle_world) =
     Inr \<lparr>ReadWriter = \<lparr>Reader = 1, Writer = 0\<rparr>, Conn = 0\<rparr> \<and>
   \<not> pipe_wclosed (pipes (perform_all
        [DoWrite \<lparr>ReadWriter = \<lparr>Reader = 1, Writer = 0\<rparr>, Conn = 0\<rparr> [1, 2, 3], DoRun 0,
         DoRun 1, DoClose \<lparr>ReadWriter = \<lparr>Reader = 1, Writer = 0\<rparr>, Conn = 0\<rparr>]
        (snd (snd (Ciphertext (vector_config xor_block) 0 idle_world)))) 1) \<and>
   fst (pipe_Read 0 4 idle_world) = None \<and>
   fst (pipe_Read 0 4 (snd (CipherConn_Close loop_conn idle_world))) = None \<and>
   pipes (snd (CipherConn_Close loop_conn idle_world)) = pipes idle_world \<and>
   conns (snd (CipherConn_Close loop_conn idle_world)) 1 = conns idle_world 1 \<and>
   fst (Plaintext (vector_config xor_block) 0 idle_world) =
     Inr \<lparr>ReadWriter = \<lparr>Reader = 1, Writer = 0\<rparr>, Conn = 0\<rparr> \<and>
   \<not> pipe_rclosed (pipes (perform_all
        [DoWrite \<lparr>ReadWriter = \<lparr>Reader = 1, Writer = 0\<rparr>, Conn = 0\<rparr> [1, 2, 3], DoRun 0,
         DoRun 1, DoClose \<lparr>ReadWriter = \<lparr>Reader = 1, Writer = 0\<rparr>, Conn = 0\<rparr>]
        (snd (snd (Plaintext (vector_config xor_block) 0 idle_world)))) 0) \<and>
   1 < length (tasks eof_session) \<and>
   task_status (tasks eof_session ! 1) = Running \<and>
   task_status (tasks (run_task 1 eof_session) ! 1) = Finished \<and>
   conn_closed (conns (run_task 1 eof_session) 0) \<and>
   last (trace (run_task 1 eof_session)) = ConnClose 0"
proof -
  let ?ed = "vector_config xor_block"
  let ?g = "\<lparr>ReadWriter = \<lparr>Reader = 1, Writer = 0\<rparr>, Conn = 0\<rparr>"
  let ?xs = "[DoCiphertext ?ed 0, DoWrite loop_conn [1, 2, 3], DoRun 0, DoRun 1,
              DoClose loop_conn, DoRead loop_conn 4]"
  let ?ys = "[DoWrite ?g [1, 2, 3], DoRun 0, DoRun 1, DoClose ?g]"
  let ?wf = "feed_world [([], Some EOF)]"
  let ?w1 = "snd (snd (Ciphertext ?ed 0 ?wf))"
  have ok: "fst (initCipherStream ?ed) = None" by (simp add: initCipherStream_vector_config)
  have o: "\<not> pipe_rclosed (pipes idle_world 0)" "\<not> pipe_wclosed (pipes idle_world 0)"
    by (simp_all add: idle_world_def)
  have a: "\<not> pipe_rclosed (pipes (perform_all ?xs idle_world) 0)"
    "\<not> pipe_wclosed (pipes (perform_all ?xs idle_world) 0)"
    using core_never_closes_pipe_ends [where w = idle_world and xs = ?xs and ed = ?ed and c = 0 and g = loop_conn
                 and i = 0] o by blast+
  have np: "npipes idle_world = 0" "npipes ?wf = 0" "tasks ?wf = []"
    by (simp_all add: feed_world_def idle_world_def)
  have g: "fst (Ciphertext ?ed 0 idle_world) = Inr ?g"
    using Ciphertext_ok_iff [of ?ed 0 idle_world] ok Ciphertext_Inr [of ?ed 0 idle_world] np
    by auto
  have b: "\<not> pipe_wclosed (pipes (perform_all ?ys (snd (snd (Ciphertext ?ed 0 idle_world)))) 1)"
    using core_never_closes_pipe_ends [where w = idle_world and xs = ?ys and ed = ?ed and c = 0 and g = loop_conn
                 and i = 0] g by simp
  have r: "fst (pipe_Read 0 4 idle_world) = None"
    by (simp add: pipe_Read_blocked_iff idle_world_def)
  have c: "fst (pipe_Read 0 4 (snd (CipherConn_Close loop_conn idle_world))) = None"
    "pipes (snd (CipherConn_Close loop_conn idle_world)) = pipes idle_world"
    using core_never_closes_pipe_ends [where w = idle_world and xs = ?xs and ed = ?ed and c = 0 and g = loop_conn
                 and i = 0] r by blast+
  have c2: "conns (snd (CipherConn_Close loop_conn idle_world)) 1 = conns idle_world 1"
    using core_never_closes_pipe_ends [where w = idle_world and xs = ?xs and ed = ?ed
        and c = 0 and g = loop_conn and i = 0]
    by (simp add: loop_conn_def)
  have gp: "fst (Plaintext ?ed 0 idle_world) = Inr ?g"
    using Plaintext_ok_iff [of ?ed 0 idle_world] ok Plaintext_Inr [of ?ed 0 idle_world] np
    by auto
  have bp: "\<not> pipe_rclosed (pipes (perform_all ?ys (snd (snd (Plaintext ?ed 0 idle_world)))) 0)"
    using core_never_closes_pipe_ends [where w = idle_world and xs = ?ys and ed = ?ed
        and c = 0 and g = loop_conn and i = 0] gp by simp
  have gf: "fst (Ciphertext ?ed 0 ?wf) = Inr ?g"
    using Ciphertext_ok_iff [of ?ed 0 ?wf] ok Ciphertext_Inr [of ?ed 0 ?wf] np by auto
  note tk = Ciphertext_new_tasks_nth [OF ok, where w = ?wf and c = 0]
  have l: "1 < length (tasks ?w1)" and s: "task_status (tasks ?w1 ! 1) = Running"
    and ow: "task_owner (tasks ?w1 ! 1) = ?g"
    using tk by (simp_all add: np)
  have sA: "EncryptStream (fst (snd (initCipherStream ?ed))) =
      Some (mode_Encrypter (CTR xor_block) (Block vector_key) vector_iv)"
    by (simp add: initCipherStream_vector_config)
  have f: "task_status (tasks (run_task 1 ?w1) ! 1) = Finished"
    using Ciphertext_encrypt_task(2) [OF gf sA feed_world_open]
    by (simp add: np feed_world_rx)
  have d: "conn_closed (conns (run_task 1 ?w1) 0)" "last (trace (run_task 1 ?w1)) = ConnClose 0"
    using core_never_closes_pipe_ends [where w = ?w1 and xs = "[]" and ed = ?ed and c = 0 and g = loop_conn and i = 1]
      l s f ow by simp_all
  show ?thesis using o a g b r c c2 gp bp l s f d by (simp add: eof_session_def)
qed

text \<open>
  C8. \<open>Close\<close> on a guarded connection is the \<open>Close\<close> of the real connection: it leaves
  the real connection closed and touches no pipe, no goroutine and no other connection.
  On an open connection it returns \<open>nil\<close>, on a closed one the closed-connection error
  and nothing else, so its result is one of these two. A second call returns the
  closed-connection error and changes nothing but the trace, and so does every later
  call, whatever the core has done in between: a closed connection never changes again.
  No call panics, and a goroutine that holds a stream does not panic either, in whatever
  order the goroutines and the caller run: a goroutine that comes to its \<open>Close\<close> after
  the other one, or after the caller, leaves the closed connection as it was.
\<close>

theorem close_again_stable:
  "fst (CipherConn_Close g w) =
     (if conn_closed (conns w (Conn g)) then Some ErrNetClosed else None) \<and>
   conn_closed (conns (snd (CipherConn_Close g w)) (Conn g)) \<and>
   pipes (snd (CipherConn_Close g w)) = pipes w \<and>
   tasks (snd (CipherConn_Close g w)) = tasks w \<and>
   (\<forall>k. k \<noteq> Conn g \<longrightarrow> conns (snd (CipherConn_Close g w)) k = conns w k) \<and>
   CipherConn_Close g (snd (CipherConn_Close g w)) =
     (Some ErrNetClosed, log (ConnClose (Conn g)) (snd (CipherConn_Close g w))) \<and>
   conns (perform_all xs (snd (CipherConn_Close g w))) (Conn g) =
     conns (snd (CipherConn_Close g w)) (Conn g) \<and>
   fst (CipherConn_Close g (perform_all xs (snd (CipherConn_Close g w)))) =
     Some ErrNetClosed \<and>
   (i < length (tasks w) \<and> task_status (tasks w ! i) = Running \<and>
    task_stream (tasks w ! i) \<noteq> None \<longrightarrow>
      task_status (tasks (run_task i w) ! i) \<noteq> Panicked \<and>
      (conn_closed (conns w (Conn (task_owner (tasks w ! i)))) \<longrightarrow>
         conns (run_task i w) (Conn (task_owner (tasks w ! i))) =
           conns w (Conn (task_owner (tasks w ! i))))) \<and>
   ((\<forall>t \<in> set (tasks w). task_stream t \<noteq> None \<longrightarrow> task_status t \<noteq> Panicked) \<longrightarrow>
      (\<forall>t \<in> set (tasks (perform_all xs w)).
          task_stream t \<noteq> None \<longrightarrow> task_status t \<noteq> Panicked))"
proof (intro conjI allI impI)
  let ?w1 = "snd (CipherConn_Close g w)"
  note fr = CipherConn_Close_frame [of g w]
  show "fst (CipherConn_Close g w) =
     (if conn_closed (conns w (Conn g)) then Some ErrNetClosed else None)"
    by (simp add: CipherConn_Close_def conn_Close_def Let_def)
  show cl: "conn_closed (conns ?w1 (Conn g))" using fr by simp
  show "pipes ?w1 = pipes w" "tasks ?w1 = tasks w" using fr by simp_all
  show "CipherConn_Close g ?w1 = (Some ErrNetClosed, log (ConnClose (Conn g)) ?w1)"
    using cl by (simp add: CipherConn_Close_def conn_Close_def Let_def)
  show fz: "conns (perform_all xs ?w1) (Conn g) = conns ?w1 (Conn g)"
    by (rule frozen_perform_all [OF cl])
  show "fst (CipherConn_Close g (perform_all xs ?w1)) = Some ErrNetClosed"
    using cl fz by (simp add: CipherConn_Close_def conn_Close_def Let_def)
next
  fix k assume "k \<noteq> Conn g"
  then show "conns (snd (CipherConn_Close g w)) k = conns w k"
    using CipherConn_Close_frame [of g w] by simp
next
  assume a: "i < length (tasks w) \<and> task_status (tasks w ! i) = Running \<and>
    task_stream (tasks w ! i) \<noteq> None"
  then obtain S where s: "task_stream (tasks w ! i) = Some S" by auto
  from a have i: "i < length (tasks w)" and r: "task_status (tasks w ! i) = Running"
    by simp_all
  show "task_status (tasks (run_task i w) ! i) \<noteq> Panicked"
    by (simp add: run_task_copy(3) [OF i r s])
next
  assume "conn_closed (conns w (Conn (task_owner (tasks w ! i))))"
  then show "conns (run_task i w) (Conn (task_owner (tasks w ! i))) =
           conns w (Conn (task_owner (tasks w ! i)))"
    by (rule frozen_run_task)
next
  assume "\<forall>t \<in> set (tasks w). task_stream t \<noteq> None \<longrightarrow> task_status t \<noteq> Panicked"
  then show "\<forall>t \<in> set (tasks (perform_all xs w)).
      task_stream t \<noteq> None \<longrightarrow> task_status t \<noteq> Panicked"
    by (rule steady_perform_all)
qed

theorem close_again_stable_witness:
  "fst (CipherConn_Close session_conn written_session) = None \<and>
   conn_closed (conns closed_session 0) \<and>
   fst (CipherConn_Close session_conn closed_session) = Some ErrNetClosed \<and>
   conns (snd (CipherConn_Close session_conn closed_session)) = conns closed_session \<and>
   fst (CipherConn_Close session_conn
          (perform_all [DoRun 0, DoWrite session_conn [4], DoRun 1] closed_session)) =
     Some ErrNetClosed \<and>
   task_status (tasks (perform_all [DoRun 1, DoRun 0] written_session) ! 0) = Finished \<and>
   task_status (tasks (perform_all [DoRun 1, DoRun 0] written_session) ! 1) = Finished \<and>
   task_status (tasks (perform_all [DoRun 0, DoRun 1] closed_session) ! 0) = Finished \<and>
   task_status (tasks (perform_all [DoRun 0, DoRun 1] closed_session) ! 1) = Finished \<and>
   task_status (tasks (perform_all [DoRun 1, DoRun 0] closed_session) ! 0) = Finished \<and>
   task_status (tasks (perform_all [DoRun 1, DoRun 0] closed_session) ! 1) = Finished \<and>
   task_status (tasks (run_task 1 written_session) ! 1) \<noteq> Panicked \<and>
   conns (run_task 0 closed_session) 0 = conns closed_session 0 \<and>
   task_status (tasks (perform_all [DoRun 1, DoRun 0] written_session) ! 0) \<noteq> Panicked"
proof -
  let ?g = session_conn
  let ?w = written_session
  let ?xs = "[DoRun 0, DoWrite session_conn [4], DoRun 1]"
  let ?ys = "[DoRun 1, DoRun 0]"
  note f = written_session_facts
  have cg: "Conn ?g = 0" by (simp add: session_conn_def)
  have cs: "closed_session = snd (CipherConn_Close ?g ?w)" by (simp add: closed_session_def)
  have op: "\<not> conn_closed (conns ?w (Conn ?g))" by (simp add: cg f(3))
  note t = close_again_stable [where g = ?g and w = ?w and xs = ?xs and i = 1]
  have a1: "fst (CipherConn_Close ?g ?w) = None" using t op by simp
  have a2: "conn_closed (conns closed_session 0)" using t by (simp add: cs cg)
  have a3: "fst (CipherConn_Close ?g closed_session) = Some ErrNetClosed"
    "conns (snd (CipherConn_Close ?g closed_session)) = conns closed_session"
    using t by (simp_all add: cs log_def)
  have a4: "fst (CipherConn_Close ?g (perform_all ?xs closed_session)) = Some ErrNetClosed"
    using t by (simp add: cs)
  have i1: "1 < length (tasks ?w)" "task_status (tasks ?w ! 1) = Running"
    "task_stream (tasks ?w ! 1) \<noteq> None"
    by (simp_all add: f(1))
  have a5: "task_status (tasks (run_task 1 ?w) ! 1) \<noteq> Panicked"
    using t i1 by simp
  have i0: "0 < length (tasks closed_session)"
    "task_status (tasks closed_session ! 0) = Running"
    "task_stream (tasks closed_session ! 0) \<noteq> None"
    "Conn (task_owner (tasks closed_session ! 0)) = 0"
    by (simp_all add: closed_session_facts(1) f(1) cg)
  have a6: "conns (run_task 0 closed_session) 0 = conns closed_session 0"
    using close_again_stable [where g = ?g and w = closed_session and xs = ?xs and i = 0]
      i0 a2 by simp
  have st: "\<forall>t \<in> set (tasks ?w). task_stream t \<noteq> None \<longrightarrow> task_status t \<noteq> Panicked"
    by (simp add: f(1))
  have all: "\<forall>t \<in> set (tasks (perform_all ?ys ?w)).
      task_stream t \<noteq> None \<longrightarrow> task_status t \<noteq> Panicked"
    using close_again_stable [where g = ?g and w = ?w and xs = ?ys and i = 0] st by blast
  have fin: "task_status (tasks (perform_all ?ys ?w) ! 0) = Finished"
    "task_status (tasks (perform_all ?ys ?w) ! 1) = Finished"
    using written_session_goroutines by simp_all
  have a7: "task_status (tasks (perform_all ?ys ?w) ! 0) \<noteq> Panicked"
    using fin by simp
  show ?thesis
    using a1 a2 a3 a4 a5 a6 a7 fin closed_session_goroutines by simp
qed

text \<open>
  C9. With the key \<open>00..0F\<close>, the all-zero IV and counter mode over a block function
  \<open>E\<close> with 16-byte blocks (AES in the claim), on an open connection: the "to
  ciphertext" transform succeeds, writing \<open>[1, 2, 3]\<close> to the connection it returns is
  accepted in full, and once the decrypt goroutine has run, the real connection has
  received exactly the exclusive-or of \<open>[1, 2, 3]\<close> with the first three keystream bytes
  of counter mode under that key and IV, after what it had received before.
\<close>

theorem concrete_vector_delivery:
  assumes op: "\<not> conn_closed (conns w c)"
    and len: "length (E vector_key vector_iv) = 16"
  shows "(\<exists>g. fst (Ciphertext (vector_config E) c w) = Inr g) \<and>
     (\<forall>g. fst (Ciphertext (vector_config E) c w) = Inr g \<longrightarrow>
        fst (CipherConn_Write g [1, 2, 3] (snd (snd (Ciphertext (vector_config E) c w)))) =
          (3, None) \<and>
        conn_tx (conns
          (run_task (length (tasks w))
             (snd (CipherConn_Write g [1, 2, 3] (snd (snd (Ciphertext (vector_config E) c w))))))
          c) =
          conn_tx (conns w c) @ xor_bytes [1, 2, 3] (CTR_keystream E vector_key vector_iv 3))"
proof (intro conjI allI impI)
  have ok: "fst (initCipherStream (vector_config E)) = None"
    by (simp add: initCipherStream_vector_config)
  then show ex: "\<exists>g. fst (Ciphertext (vector_config E) c w) = Inr g"
    using Ciphertext_ok_iff [of "vector_config E" c w] by simp
  fix g assume g: "fst (Ciphertext (vector_config E) c w) = Inr g"
  let ?w1 = "snd (snd (Ciphertext (vector_config E) c w))"
  let ?p = "npipes w"
  let ?i = "length (tasks w)"
  let ?S = "mode_Decrypter (CTR E) (Block vector_key) vector_iv"
  note gi = Ciphertext_Inr [OF g]
  have gc: "Conn g = c" and gw: "Writer (ReadWriter g) = ?p" using gi by simp_all
  have p1: "pipes ?w1 ?p = \<lparr>pipe_pending = [], pipe_rclosed = False, pipe_wclosed = False\<rparr>"
    using gi by simp
  have c1: "conns ?w1 = conns w" by (rule Ciphertext_conns)
  have t1: "tasks ?w1 ! ?i =
      \<lparr>task_stream = Some ?S, task_route = PipeToConn ?p c, task_wrapper = ByStreamReader,
       task_owner = \<lparr>ReadWriter = \<lparr>Reader = Suc ?p, Writer = ?p\<rparr>, Conn = c\<rparr>,
       task_status = Running\<rparr>"
    and l1: "?i < length (tasks ?w1)"
    by (simp_all add: Ciphertext_new_tasks [OF ok] initCipherStream_vector_config)
  let ?w2 = "snd (CipherConn_Write g [1, 2, 3] ?w1)"
  have o1: "\<not> conn_closed (conns ?w1 (Conn g))"
    "\<not> pipe_rclosed (pipes ?w1 (Writer (ReadWriter g)))"
    "\<not> pipe_wclosed (pipes ?w1 (Writer (ReadWriter g)))"
    using op by (simp_all add: gc gw c1 p1)
  note wr = CipherConn_Write_open [OF o1, of "[1, 2, 3]"]
  show "fst (CipherConn_Write g [1, 2, 3] ?w1) = (3, None)" using wr(1) by simp
  have c2: "conns ?w2 = conns w" using wr(2) c1 by simp
  have t2: "tasks ?w2 = tasks ?w1" by (rule wr(3))
  have p2: "pipes ?w2 ?p =
      \<lparr>pipe_pending = [[1, 2, 3]], pipe_rclosed = False, pipe_wclosed = False\<rparr>"
    using wr(4) by (simp add: gw p1)
  have i2: "?i < length (tasks ?w2)" and r2: "task_status (tasks ?w2 ! ?i) = Running"
    and s2: "task_stream (tasks ?w2 ! ?i) = Some ?S"
    and rt: "task_route (tasks ?w2 ! ?i) = PipeToConn ?p c"
    and wp: "task_wrapper (tasks ?w2 ! ?i) = ByStreamReader"
    using l1 by (simp_all add: t2 t1)
  have o2: "\<not> conn_closed (conns ?w2 c)" "\<not> pipe_rclosed (pipes ?w2 ?p)"
    using op by (simp_all add: c2 p2)
  note lp = copy_loop_PipeToConn [OF o2, of ByStreamReader ?S]
  have nf: "\<not> fst (copy_loop (task_wrapper (tasks ?w2 ! ?i)) (task_route (tasks ?w2 ! ?i)) ?S ?w2)"
    using lp by (simp add: rt wp p2)
  have "conn_tx (conns (run_task ?i ?w2) c) =
      conn_tx (conns w c) @ fst (XORKeyStream ?S [1, 2, 3])"
    using lp by (simp add: run_task_copy(2) [OF i2 r2 s2 nf] rt wp p2 c2)
  also have "fst (XORKeyStream ?S [1, 2, 3]) =
      xor_bytes [1, 2, 3] (CTR_keystream E vector_key vector_iv 3)"
    using CTR_keystream_3 [of E vector_key vector_iv] len
    by (simp add: CTR_decrypt_3 xor_bytes_def)
  finally show "conn_tx (conns (run_task ?i ?w2) c) =
      conn_tx (conns w c) @ xor_bytes [1, 2, 3] (CTR_keystream E vector_key vector_iv 3)" .
qed

theorem concrete_vector_delivery_witness:
  "\<not> conn_closed (conns idle_world 0) \<and>
   length (xor_block vector_key vector_iv) = 16 \<and>
   fst (Ciphertext (vector_config xor_block) 0 idle_world) =
     Inr \<lparr>ReadWriter = \<lparr>Reader = 1, Writer = 0\<rparr>, Conn = 0\<rparr> \<and>
   xor_bytes [1, 2, 3] (CTR_keystream xor_block vector_key vector_iv 3) = [1, 3, 1] \<and>
   conn_tx (conns
     (run_task 0
        (snd (CipherConn_Write \<lparr>ReadWriter = \<lparr>Reader = 1, Writer = 0\<rparr>, Conn = 0\<rparr> [1, 2, 3]
               (snd (snd (Ciphertext (vector_config xor_block) 0 idle_world))))))
     0) = [1, 3, 1]"
proof -
  have op: "\<not> conn_closed (conns idle_world 0)" by (rule idle_world_open)
  have len: "length (xor_block vector_key vector_iv) = 16"
    by (simp add: xor_block_vector) (simp add: vector_key_def)
  have g: "fst (Ciphertext (vector_config xor_block) 0 idle_world) =
     Inr \<lparr>ReadWriter = \<lparr>Reader = 1, Writer = 0\<rparr>, Conn = 0\<rparr>"
    using concrete_vector_delivery [where E = xor_block, OF op len] Ciphertext_Inr [of "vector_config xor_block" 0 idle_world]
    by (auto simp: idle_world_def)
  have k: "xor_bytes [1, 2, 3] (CTR_keystream xor_block vector_key vector_iv 3) = [1, 3, 1]"
    by (simp add: CTR_keystream_3 [of xor_block, OF len] xor_block_vector vector_key_nth
          xor_bytes_def)
  have "conn_tx (conns
     (run_task (length (tasks idle_world))
        (snd (CipherConn_Write \<lparr>ReadWriter = \<lparr>Reader = 1, Writer = 0\<rparr>, Conn = 0\<rparr> [1, 2, 3]
               (snd (snd (Ciphertext (vector_config xor_block) 0 idle_world))))))
     0) = conn_tx (conns idle_world 0) @ [1, 3, 1]"
    using concrete_vector_delivery [where E = xor_block, OF op len] g k by simp
  then show ?thesis using op len g k by (simp add: idle_world_def)
qed

text \<open>
  C1. Let the "to ciphertext" transform succeed on an open connection with the encrypt
  material (key, IV, encrypter of a stream mode), and the "to plaintext" transform
  succeed on an open connection with the matching decrypt material (same key, same IV,
  decrypter of the same mode). Let \<open>P\<close> be the bytes the first connection delivers to
  the encrypt goroutine, in whatever chunks, and let the second connection deliver, in
  whatever chunks, the bytes the encrypt goroutine has produced. Then what the decrypt
  goroutine produces is exactly \<open>P\<close>.
\<close>

theorem stream_round_trip:
  assumes A: "fst (Ciphertext edA a wA) = Inr gA"
    and B: "fst (Plaintext edB b wB) = Inr gB"
    and encA: "EncryptStream edA = None" "StreamEncrypter edA = Some (NewEncrypter m)"
      "EncryptKey edA = Some key" "EncryptIV edA = Some iv"
    and decB: "DecryptStream edB = None" "StreamDecrypter edB = Some (NewDecrypter m)"
      "DecryptKey edB = Some key" "DecryptIV edB = Some iv"
    and openA: "\<not> conn_closed (conns wA a)"
    and openB: "\<not> conn_closed (conns wB b)"
    and P: "consumed (conn_rx (conns wA a)) = P"
    and C: "consumed (conn_rx (conns wB b)) =
       concat (pipe_pending (pipes (run_task (Suc (length (tasks wA)))
                                      (snd (snd (Ciphertext edA a wA))))
                               (Reader (ReadWriter gA))))"
  shows "concat (pipe_pending (pipes (run_task (Suc (length (tasks wB)))
                                        (snd (snd (Plaintext edB b wB))))
                                 (Reader (ReadWriter gB)))) = P"
proof -
  have okA: "fst (initCipherStream edA) = None"
    using A Ciphertext_ok_iff [of edA a wA] by auto
  have okB: "fst (initCipherStream edB) = None"
    using B Plaintext_ok_iff [of edB b wB] by auto
  note sA = init_encrypt_stream [OF okA encA, unfolded NewEncrypter_def]
  note sB = init_decrypt_stream [OF okB decB, unfolded NewDecrypter_def]
  have "consumed (conn_rx (conns wB b)) =
      fst (XORKeyStream (mode_Encrypter m (Block key) iv) P)"
    using C Ciphertext_encrypt_task(1) [OF A sA openA] P by simp
  then show ?thesis
    using Plaintext_decrypt_task(1) [OF B sB openB] by (simp add: mode_round_trip)
qed

theorem stream_round_trip_witness:
  "fst (Ciphertext (vector_config xor_block) 0
          (feed_world [([1, 2], None), ([3], None), ([], Some EOF)])) =
     Inr \<lparr>ReadWriter = \<lparr>Reader = 1, Writer = 0\<rparr>, Conn = 0\<rparr> \<and>
   fst (Plaintext (vector_config xor_block) 0 (feed_world [([1], None), ([3, 1], Some EOF)])) =
     Inr \<lparr>ReadWriter = \<lparr>Reader = 1, Writer = 0\<rparr>, Conn = 0\<rparr> \<and>
   consumed [([1, 2], None), ([3], None), ([], Some EOF)] = [1, 2, 3] \<and>
   concat (pipe_pending (pipes
     (run_task 1 (snd (snd (Ciphertext (vector_config xor_block) 0
        (feed_world [([1, 2], None), ([3], None), ([], Some EOF)])))))
     1)) = [1, 3, 1] \<and>
   consumed [([1], None), ([3, 1], Some EOF)] = [1, 3, 1] \<and>
   concat (pipe_pending (pipes
     (run_task 1 (snd (snd (Plaintext (vector_config xor_block) 0
        (feed_world [([1], None), ([3, 1], Some EOF)])))))
     1)) = [1, 2, 3]"
proof -
  let ?wA = "feed_world [([1, 2], None), ([3], None), ([], Some EOF)]"
  let ?wB = "feed_world [([1], None), ([3, 1], Some EOF)]"
  let ?g = "\<lparr>ReadWriter = \<lparr>Reader = 1, Writer = 0\<rparr>, Conn = 0\<rparr>"
  let ?ed = "vector_config xor_block"
  have ok: "fst (initCipherStream ?ed) = None" by (simp add: initCipherStream_vector_config)
  have np: "npipes ?wA = 0" "npipes ?wB = 0" "tasks ?wA = []" "tasks ?wB = []"
    by (simp_all add: feed_world_def idle_world_def)
  have gA: "fst (Ciphertext ?ed 0 ?wA) = Inr ?g"
    using Ciphertext_ok_iff [of ?ed 0 ?wA] ok Ciphertext_Inr [of ?ed 0 ?wA] np by auto
  have gB: "fst (Plaintext ?ed 0 ?wB) = Inr ?g"
    using Plaintext_ok_iff [of ?ed 0 ?wB] ok Plaintext_Inr [of ?ed 0 ?wB] np by auto
  have sA: "EncryptStream (fst (snd (initCipherStream ?ed))) =
      Some (mode_Encrypter (CTR xor_block) (Block vector_key) vector_iv)"
    by (simp add: initCipherStream_vector_config)
  have cA: "concat (pipe_pending (pipes (run_task 1 (snd (snd (Ciphertext ?ed 0 ?wA)))) 1)) =
      [1, 3, 1]"
    using Ciphertext_encrypt_task(1) [OF gA sA feed_world_open]
    by (simp add: np feed_world_rx encrypt_sample)
  have P: "consumed (conn_rx (conns ?wA 0)) = [1, 2, 3]" by (simp add: feed_world_rx)
  have C: "consumed (conn_rx (conns ?wB 0)) =
       concat (pipe_pending (pipes (run_task (Suc (length (tasks ?wA)))
                                      (snd (snd (Ciphertext ?ed 0 ?wA))))
                               (Reader (ReadWriter ?g))))"
    using cA by (simp add: np feed_world_rx)
  have "concat (pipe_pending (pipes (run_task (Suc (length (tasks ?wB)))
                                        (snd (snd (Plaintext ?ed 0 ?wB))))
                                 (Reader (ReadWriter ?g)))) = [1, 2, 3]"
    by (rule stream_round_trip [OF gA gB _ _ _ _ _ _ _ _ feed_world_open feed_world_open P C,
          where m = "CTR xor_block" and key = vector_key and iv = vector_iv])
       (simp_all add: vector_config_def)
  then show ?thesis using gA gB cA by (simp add: np)
qed

end
